theory Spec2Isabelle
  imports Complex_Main "HOL-Library.Word"
begin

section \<open>Data model (src/types.ts)\<close>

text \<open>
  A \<open>TextRegion\<close> is a rectangle in percentage coordinates with its text payload. The
  TypeScript \<open>number\<close> fields are modelled as exact reals (coordinates) and as an integer
  (\<open>order\<close>, which the code only ever sets to a list length plus one or a list index plus
  one); rounding of IEEE doubles is outside this model. The fields \<open>x\<close>, \<open>y\<close>,
  \<open>width\<close>, \<open>height\<close>, \<open>id\<close> and \<open>order\<close> carry the prefix \<open>reg_\<close> here.
  \<open>region_data\<close> is \<open>Omit<TextRegion, 'id' | 'order'>\<close>, the payload the canvas hands
  to \<open>addRegion\<close>.
\<close>

record region_data =
  reg_x :: real
  reg_y :: real
  reg_width :: real
  reg_height :: real
  originalText :: string
  translatedText :: string

record text_region = region_data +
  reg_id :: string
  reg_order :: int

text \<open>
  The merged working image: the encoded raster (its pixel size is all that later code
  reads back from it) and the region set measured against it.
\<close>

record raster =
  img_width :: nat
  img_height :: nat

record merged_image =
  url :: raster
  regions :: "text_region list"

datatype AppMode = UPLOAD | MERGED_EDITOR

text \<open>
  A \<open>WebtoonImage\<close>: \<open>width\<close> and \<open>height\<close> are optional in the source
  (\<open>number | undefined\<close>); when present they are the decoded image's pixel size.
\<close>

record webtoon_image =
  image_id :: string
  previewUrl :: string
  width :: "nat option"
  height :: "nat option"

text \<open>
  The React state of \<open>App\<close> that the modelled handlers read or write. The progress
  message \<open>processingStatus\<close> is display text only and is left out.
\<close>

record app_state =
  images :: "webtoon_image list"
  mergedImage :: "merged_image option"
  selectedRegionId :: "string option"
  isProcessing :: bool
  mode :: AppMode

section \<open>Region sequencing (src/App.tsx, addRegion and removeRegion)\<close>

text \<open>
  \<open>addRegion\<close> draws the new identifier from \<open>Math.random\<close>; the drawn string is the
  parameter \<open>fresh\<close>. Without a merged image the handler returns at once.
\<close>

definition addRegion :: "string \<Rightarrow> region_data \<Rightarrow> app_state \<Rightarrow> app_state" where
  "addRegion fresh data s =
     (case mergedImage s of
        None \<Rightarrow> s
      | Some m \<Rightarrow>
          (let newRegion = \<lparr>reg_x = reg_x data, reg_y = reg_y data,
                             reg_width = reg_width data, reg_height = reg_height data,
                             originalText = originalText data,
                             translatedText = translatedText data,
                             reg_id = fresh,
                             reg_order = int (length (regions m)) + 1\<rparr>
           in s\<lparr>mergedImage := Some (m\<lparr>regions := regions m @ [newRegion]\<rparr>),
                selectedRegionId := Some (reg_id newRegion)\<rparr>))"

text \<open>\<open>.map((r, i) => ({ ...r, order: i + 1 }))\<close>: every element gets its index plus one.\<close>

definition renumber :: "text_region list \<Rightarrow> text_region list" where
  "renumber rs = map (\<lambda>(i, r). r\<lparr>reg_order := int i + 1\<rparr>) (enumerate 0 rs)"

definition removeRegion :: "string \<Rightarrow> app_state \<Rightarrow> app_state" where
  "removeRegion rid s =
     (case mergedImage s of
        None \<Rightarrow> s
      | Some m \<Rightarrow>
          (let newRegions = renumber (filter (\<lambda>r. reg_id r \<noteq> rid) (regions m))
           in s\<lparr>mergedImage := Some (m\<lparr>regions := newRegions\<rparr>),
                selectedRegionId := None\<rparr>))"

text \<open>A user action on the region set, and a run of such actions in sequence.\<close>

datatype region_op = Add string region_data | Remove string

fun apply_region_op :: "region_op \<Rightarrow> app_state \<Rightarrow> app_state" where
  "apply_region_op (Add fresh data) s = addRegion fresh data s"
| "apply_region_op (Remove rid) s = removeRegion rid s"

definition run_region_ops :: "region_op list \<Rightarrow> app_state \<Rightarrow> app_state" where
  "run_region_ops ops s = fold apply_region_op ops s"

text \<open>The region list of a state (empty when there is no merged image).\<close>

definition regions_of :: "app_state \<Rightarrow> text_region list" where
  "regions_of s = (case mergedImage s of None \<Rightarrow> [] | Some m \<Rightarrow> regions m)"

text \<open>Dense numbering: the orders, read in list order, are exactly 1, 2, ..., M.\<close>

definition dense_orders :: "text_region list \<Rightarrow> bool" where
  "dense_orders rs = (map reg_order rs = [1..int (length rs)])"

text \<open>The identifiers, positions and texts of a region list, with the orders left out.\<close>

definition payloads :: "text_region list \<Rightarrow> (string \<times> region_data) list" where
  "payloads rs = map (\<lambda>r. (reg_id r, region_data.truncate r)) rs"

section \<open>Interactive region editor (src/components/ImageCanvas.tsx)\<close>

text \<open>
  The component state: the drawing flag, the anchor and the pending rectangle. The
  container's bounding rectangle is \<open>None\<close> when \<open>containerRef.current\<close> is null.
\<close>

record pending_rect =
  rc_x :: real
  rc_y :: real
  rc_w :: real
  rc_h :: real

record canvas_state =
  isDrawing :: bool
  startPos :: "(real \<times> real) option"
  currentRect :: "pending_rect option"

record client_rect =
  rect_left :: real
  rect_top :: real
  rect_width :: real
  rect_height :: real

text \<open>The calls a handler makes on the callbacks it received as props.\<close>

datatype canvas_event = OnSelectRegion "string option" | OnAddRegion region_data

text \<open>
  \<open>((e.clientX - rect.left) / rect.width) * 100\<close>. For a container of extent zero
  JavaScript yields NaN or an infinity where HOL's division yields 0; the theorems about
  pointer positions therefore assume a container of positive size.
\<close>

definition toPercent :: "real \<Rightarrow> real \<Rightarrow> real \<Rightarrow> real" where
  "toPercent c origin extent = ((c - origin) / extent) * 100"

text \<open>The predicate passed to \<open>find\<close> in \<open>handleMouseDown\<close>.\<close>

definition hit :: "real \<Rightarrow> real \<Rightarrow> text_region \<Rightarrow> bool" where
  "hit x y r = (x \<ge> reg_x r \<and> x \<le> reg_x r + reg_width r \<and>
                y \<ge> reg_y r \<and> y \<le> reg_y r + reg_height r)"

text \<open>
  \<open>[...regions].sort((a,b) => b.order - a.order)\<close>: \<open>Array.prototype.sort\<close> is stable,
  so the result is the stable sort by descending order, here the stable insertion sort on
  the negated key.
\<close>

definition sort_desc_order :: "text_region list \<Rightarrow> text_region list" where
  "sort_desc_order rs = sort_key (\<lambda>r. - reg_order r) rs"

definition handleMouseDown ::
  "client_rect option \<Rightarrow> real \<Rightarrow> real \<Rightarrow> text_region list \<Rightarrow> canvas_state
     \<Rightarrow> canvas_state \<times> canvas_event list" where
  "handleMouseDown container clientX clientY regs cs =
     (case container of
        None \<Rightarrow> (cs, [])
      | Some rect \<Rightarrow>
          (let x = toPercent clientX (rect_left rect) (rect_width rect);
               y = toPercent clientY (rect_top rect) (rect_height rect);
               clickedRegion = List.find (hit x y) (sort_desc_order regs)
           in case clickedRegion of
                Some r \<Rightarrow> (cs, [OnSelectRegion (Some (reg_id r))])
              | None \<Rightarrow>
                  (\<lparr>isDrawing = True, startPos = Some (x, y),
                    currentRect = Some \<lparr>rc_x = x, rc_y = y, rc_w = 0, rc_h = 0\<rparr>\<rparr>,
                   [OnSelectRegion None])))"

definition handleMouseMove ::
  "client_rect option \<Rightarrow> real \<Rightarrow> real \<Rightarrow> canvas_state \<Rightarrow> canvas_state" where
  "handleMouseMove container clientX clientY cs =
     (if \<not> isDrawing cs then cs
      else case startPos cs of
        None \<Rightarrow> cs
      | Some (sx, sy) \<Rightarrow>
          (case container of
             None \<Rightarrow> cs
           | Some rect \<Rightarrow>
               (let x = toPercent clientX (rect_left rect) (rect_width rect);
                    y = toPercent clientY (rect_top rect) (rect_height rect)
                in cs\<lparr>currentRect := Some \<lparr>rc_x = min x sx, rc_y = min y sy,
                                             rc_w = \<bar>x - sx\<bar>, rc_h = \<bar>y - sy\<bar>\<rparr>\<rparr>)))"

definition handleMouseUp :: "canvas_state \<Rightarrow> canvas_state \<times> canvas_event list" where
  "handleMouseUp cs =
     (\<lparr>isDrawing = False, startPos = None, currentRect = None\<rparr>,
      (case currentRect cs of
         None \<Rightarrow> []
       | Some rc \<Rightarrow>
           if isDrawing cs \<and> rc_w rc > 0.05 \<and> rc_h rc > 0.05
           then [OnAddRegion \<lparr>reg_x = rc_x rc, reg_y = rc_y rc,
                               reg_width = rc_w rc, reg_height = rc_h rc,
                               originalText = [], translatedText = []\<rparr>]
           else []))"

text \<open>
  The wiring in \<open>App\<close>: \<open>onSelectRegion={setSelectedRegionId}\<close> and
  \<open>onAddRegion={addRegion}\<close>. \<open>deliver\<close> hands a handler's calls to the application state.
\<close>

fun dispatch :: "string \<Rightarrow> canvas_event \<Rightarrow> app_state \<Rightarrow> app_state" where
  "dispatch fresh (OnSelectRegion sel) s = s\<lparr>selectedRegionId := sel\<rparr>"
| "dispatch fresh (OnAddRegion data) s = addRegion fresh data s"

definition deliver :: "string \<Rightarrow> canvas_event list \<Rightarrow> app_state \<Rightarrow> app_state" where
  "deliver fresh evs s = fold (dispatch fresh) evs s"

section \<open>Canvas compositor (src/App.tsx, mergeImagesOnly)\<close>

text \<open>
  A drawing call on a 2D context, recorded with the arguments the code passes. In
  \<open>DrawImage src dx dy dw dh\<close> an argument that is \<open>undefined\<close> or NaN at run time is
  \<open>None\<close>. \<open>FillRect\<close> and \<open>FillText\<close> carry the fill style in force, \<open>FillText\<close> also
  the font size in pixels.
\<close>

datatype draw_op =
    DrawImage string nat "nat option" "nat option" "nat option"
  | DrawRaster raster real real
  | FillRect string real real real real
  | FillText string real string real real

record canvas =
  canvas_width :: nat
  canvas_height :: nat
  canvas_ops :: "draw_op list"

text \<open>\<open>img.width || 0\<close>: an absent dimension counts as 0.\<close>

fun or0 :: "nat option \<Rightarrow> nat" where
  "or0 None = 0"
| "or0 (Some n) = n"

text \<open>\<open>Math.max(...xs)\<close>: the greatest argument; without arguments it is minus infinity (\<open>None\<close>).\<close>

fun Math_max :: "nat list \<Rightarrow> nat option" where
  "Math_max [] = None"
| "Math_max (x # xs) = Some (fold max xs x)"

text \<open>
  The drawing loop: \<open>currentY\<close> starts at 0 and grows by each image's height; adding an
  \<open>undefined\<close> height turns it into NaN (\<open>None\<close>) for good.
\<close>

fun merge_loop :: "webtoon_image list \<Rightarrow> nat option \<Rightarrow> draw_op list \<Rightarrow> draw_op list" where
  "merge_loop [] currentY acc = acc"
| "merge_loop (imgData # rest) currentY acc =
     merge_loop rest
       (case (currentY, height imgData) of
          (Some y, Some h) \<Rightarrow> Some (y + h)
        | _ \<Rightarrow> None)
       (acc @ [DrawImage (previewUrl imgData) 0 currentY (width imgData) (height imgData)])"

text \<open>
  The canvas after sizing and drawing. Assigning minus infinity to \<open>canvas.width\<close> would
  store 0; the caller's guard on the empty list keeps that case away.
\<close>

definition mergeCanvas :: "webtoon_image list \<Rightarrow> canvas" where
  "mergeCanvas imgs =
     (let maxWidth = Math_max (map (\<lambda>img. or0 (width img)) imgs);
          totalHeight = fold (\<lambda>img sum. sum + or0 (height img)) imgs 0
      in \<lparr>canvas_width = (case maxWidth of None \<Rightarrow> 0 | Some w \<Rightarrow> w),
          canvas_height = totalHeight,
          canvas_ops = merge_loop imgs (Some 0) []\<rparr>)"

text \<open>\<open>canvas.toDataURL\<close>: the encoded image has the canvas's pixel size.\<close>

definition toDataURL :: "canvas \<Rightarrow> raster" where
  "toDataURL c = \<lparr>img_width = canvas_width c, img_height = canvas_height c\<rparr>"

text \<open>
  \<open>mergeImagesOnly\<close>. \<open>has_ctx\<close> says whether \<open>getContext('2d')\<close> returned a context;
  \<open>decodes u\<close> says whether the \<open>onload\<close> event of an image with source \<open>u\<close> ever fires.
  The handler awaits that event for each image in turn, so with an image that never
  decodes it never completes: the result is \<open>None\<close>.
\<close>

definition mergeImagesOnly :: "bool \<Rightarrow> (string \<Rightarrow> bool) \<Rightarrow> app_state \<Rightarrow> app_state option" where
  "mergeImagesOnly has_ctx decodes s =
     (if length (images s) = 0 then Some s
      else
        (let s1 = s\<lparr>isProcessing := True\<rparr>
         in if \<not> has_ctx then Some s1
            else if \<not> list_all (\<lambda>imgData. decodes (previewUrl imgData)) (images s) then None
            else Some (s1\<lparr>mergedImage := Some \<lparr>url = toDataURL (mergeCanvas (images s)),
                                                 regions = []\<rparr>,
                           mode := MERGED_EDITOR,
                           isProcessing := False\<rparr>)))"

section \<open>Export renderer (src/App.tsx, downloadFinal)\<close>

text \<open>
  \<open>(p / 100) * dimension\<close>: a percentage coordinate as an absolute pixel coordinate. The
  same four expressions convert a region in \<open>runOcrOnSelectedRegions\<close> (against the
  source image) and in \<open>downloadFinal\<close> (against the export canvas). Here they are read
  in exact arithmetic, which is all the drawing properties need; the rounded form is
  \<open>toPixels_fl\<close> further down.
\<close>

definition toPixels :: "real \<Rightarrow> nat \<Rightarrow> real" where
  "toPixels p extent = (p / 100) * real extent"

definition regionPixels :: "nat \<Rightarrow> nat \<Rightarrow> text_region \<Rightarrow> real \<times> real \<times> real \<times> real" where
  "regionPixels w h r =
     (toPixels (reg_x r) w, toPixels (reg_y r) h,
      toPixels (reg_width r) w, toPixels (reg_height r) h)"

text \<open>\<open>r.translatedText || r.originalText\<close>: the empty string is falsy.\<close>

definition displayText :: "text_region \<Rightarrow> string" where
  "displayText r = (if translatedText r \<noteq> [] then translatedText r else originalText r)"

text \<open>
  \<open>text.split(' ')\<close>: the pieces between single spaces, empty pieces included; the empty
  string splits into one empty piece.
\<close>

fun split_space :: "string \<Rightarrow> string list" where
  "split_space [] = [Nil]"
| "split_space (c # cs) =
     (if c = CHR '' '' then [] # split_space cs
      else (case split_space cs of
              w # ws \<Rightarrow> (c # w) # ws
            | [] \<Rightarrow> [c # []]))"

text \<open>
  The wrapping loop over \<open>words[n]\<close>, with the current \<open>line\<close> and the closed \<open>lines\<close>.
  \<open>mwidth\<close> is \<open>ctx.measureText(...).width\<close> under the font in force, \<open>maxw\<close> is
  \<open>rw * 0.85\<close>. The browser's text measurement is not part of the repository and stays a
  parameter.
\<close>

fun wrap_loop ::
  "(string \<Rightarrow> real) \<Rightarrow> real \<Rightarrow> string list \<Rightarrow> nat \<Rightarrow> string \<Rightarrow> string list
     \<Rightarrow> string \<times> string list" where
  "wrap_loop mwidth maxw [] n line lines = (line, lines)"
| "wrap_loop mwidth maxw (word # rest) n line lines =
     (let testLine = line @ word @ '' ''
      in if mwidth testLine > maxw \<and> n > 0
         then wrap_loop mwidth maxw rest (Suc n) (word @ '' '') (lines @ [line])
         else wrap_loop mwidth maxw rest (Suc n) testLine lines)"

text \<open>The loop from \<open>n = 0\<close> with an empty line, then the final \<open>lines.push(line)\<close>.\<close>

definition wrapLines :: "(string \<Rightarrow> real) \<Rightarrow> real \<Rightarrow> string list \<Rightarrow> string list" where
  "wrapLines mwidth maxw words =
     (case wrap_loop mwidth maxw words 0 [] [] of (line, lines) \<Rightarrow> lines @ [line])"

text \<open>
  The body of \<open>mergedImage.regions.forEach\<close> for one region, with a context present:
  the drawing calls it makes on a canvas of the given size. \<open>measureText f t\<close> is the
  measured width of \<open>t\<close> in the bold face at \<open>f\<close> pixels.
\<close>

definition renderRegion ::
  "(real \<Rightarrow> string \<Rightarrow> real) \<Rightarrow> nat \<Rightarrow> nat \<Rightarrow> text_region \<Rightarrow> draw_op list" where
  "renderRegion measureText cw ch r =
     (let rx = toPixels (reg_x r) cw;
          ry = toPixels (reg_y r) ch;
          rw = toPixels (reg_width r) cw;
          rh = toPixels (reg_height r) ch;
          box = [FillRect ''white'' rx ry rw rh];
          fontSize = max 12 (rh * 0.15);
          text = displayText r
      in if text = [] then box
         else
           (let words = split_space text;
                lines = wrapLines (measureText fontSize) (rw * 0.85) words;
                lineHeight = fontSize * 1.2;
                startY = ry + (rh / 2) - ((real (length lines) - 1) * lineHeight / 2)
            in box @ map (\<lambda>(i, l). FillText ''black'' fontSize l (rx + rw / 2)
                                     (startY + (real i * lineHeight)))
                         (enumerate 0 lines)))"

text \<open>
  \<open>downloadFinal\<close>: without a merged image nothing is exported; if the merged image's
  \<open>onload\<close> never fires (\<open>loads = False\<close>) the handler never completes; otherwise the canvas
  takes the image's size, and with a context present receives the image and then each
  region's drawing calls in array order.
\<close>

datatype export_result = NoExport | NeverCompletes | Exported canvas

definition downloadFinal ::
  "bool \<Rightarrow> bool \<Rightarrow> (real \<Rightarrow> string \<Rightarrow> real) \<Rightarrow> app_state \<Rightarrow> export_result" where
  "downloadFinal has_ctx loads measureText s =
     (case mergedImage s of
        None \<Rightarrow> NoExport
      | Some m \<Rightarrow>
          if \<not> loads then NeverCompletes
          else
            (let cw = img_width (url m);
                 ch = img_height (url m)
             in Exported
                  \<lparr>canvas_width = cw, canvas_height = ch,
                   canvas_ops =
                     (if has_ctx
                      then DrawRaster (url m) 0 0
                             # concat (map (renderRegion measureText cw ch) (regions m))
                      else [])\<rparr>))"

text \<open>
  The specification's wording of the wrap, for comparison: a line starts with a word,
  accepted unconditionally; each following word is appended unless that would make the
  measured width exceed the limit, in which case the line is closed and the word starts
  the next line.
\<close>

fun greedy_fill :: "(string \<Rightarrow> real) \<Rightarrow> real \<Rightarrow> string \<Rightarrow> string list \<Rightarrow> string list" where
  "greedy_fill mwidth maxw line [] = [line]"
| "greedy_fill mwidth maxw line (word # rest) =
     (if mwidth (line @ word @ '' '') > maxw
      then line # greedy_fill mwidth maxw (word @ '' '') rest
      else greedy_fill mwidth maxw (line @ word @ '' '') rest)"

fun greedy_wrap :: "(string \<Rightarrow> real) \<Rightarrow> real \<Rightarrow> string list \<Rightarrow> string list" where
  "greedy_wrap mwidth maxw [] = []"
| "greedy_wrap mwidth maxw (word # rest) = greedy_fill mwidth maxw (word @ '' '') rest"

text \<open>A group of words as the code writes it on a line: each word followed by a space.\<close>

definition line_of_words :: "string list \<Rightarrow> string" where
  "line_of_words ws = concat (map (\<lambda>w. w @ '' '') ws)"

text \<open>A measure under which appending text never makes a line narrower.\<close>

definition monotone_measure :: "(string \<Rightarrow> real) \<Rightarrow> bool" where
  "monotone_measure mwidth = (\<forall>a b. mwidth a \<le> mwidth (a @ b))"

text \<open>The strings a list of drawing calls writes with \<open>fillText\<close>, in call order.\<close>

fun drawn_texts :: "draw_op list \<Rightarrow> string list" where
  "drawn_texts [] = []"
| "drawn_texts (FillText style fontSize l x y # ops) = l # drawn_texts ops"
| "drawn_texts (other # ops) = drawn_texts ops"

section \<open>Coordinate conversions in floating-point arithmetic\<close>

text \<open>
  JavaScript numbers are IEEE 754 doubles: every arithmetic operation returns the exact
  result rounded to a double. \<open>toPixels\<close> and \<open>toPercent\<close> above read the source's
  expressions in exact arithmetic; the definitions here are the same expressions with the
  rounding \<open>rnd\<close> applied after each operation, in the order the source evaluates them:
  \<open>(p / 100) * dimension\<close> in \<open>downloadFinal\<close> and \<open>runOcrOnSelectedRegions\<close>, and
  \<open>((c - origin) / extent) * 100\<close> in the canvas. An image dimension is an integer and
  is a double without rounding.
\<close>

definition toPixels_fl :: "(real \<Rightarrow> real) \<Rightarrow> real \<Rightarrow> nat \<Rightarrow> real" where
  "toPixels_fl rnd p extent = rnd (rnd (p / 100) * real extent)"

definition toPercent_fl :: "(real \<Rightarrow> real) \<Rightarrow> real \<Rightarrow> real \<Rightarrow> real \<Rightarrow> real" where
  "toPercent_fl rnd c origin extent = rnd (rnd (rnd (c - origin) / extent) * 100)"

definition regionPixels_fl ::
  "(real \<Rightarrow> real) \<Rightarrow> nat \<Rightarrow> nat \<Rightarrow> text_region \<Rightarrow> real \<times> real \<times> real \<times> real" where
  "regionPixels_fl rnd w h r =
     (toPixels_fl rnd (reg_x r) w, toPixels_fl rnd (reg_y r) h,
      toPixels_fl rnd (reg_width r) w, toPixels_fl rnd (reg_height r) h)"

text \<open>The crop rectangle \<open>rx, ry, rw, rh\<close> that the OCR pass cuts out of the source image.\<close>

definition ocrCropRect_fl ::
  "(real \<Rightarrow> real) \<Rightarrow> raster \<Rightarrow> text_region \<Rightarrow> real \<times> real \<times> real \<times> real" where
  "ocrCropRect_fl rnd sourceImg region =
     regionPixels_fl rnd (img_width sourceImg) (img_height sourceImg) region"

text \<open>
  The standard model of rounding: the rounded value differs from the exact one by at most
  the relative error \<open>eps\<close>. Doubles with round-to-nearest satisfy it with \<open>eps\<close> = 2
  to the power -53 on every result that neither overflows nor underflows; exact
  arithmetic is the case \<open>eps = 0\<close>.
\<close>

definition rounds_within :: "real \<Rightarrow> (real \<Rightarrow> real) \<Rightarrow> bool" where
  "rounds_within eps rnd = (\<forall>x. \<bar>rnd x - x\<bar> \<le> eps * \<bar>x\<bar>)"

section \<open>Applying translation results (src/App.tsx, runAiTranslation)\<close>

text \<open>
  One element of the array the translation service resolves to, in the declared shape
  \<open>{id, translatedText}\<close>. Results of any other shape are outside this typed model.
\<close>

record translation =
  tr_id :: string
  tr_translatedText :: string

text \<open>
  \<open>mergedImage.regions.map(r => { const trans = translations.find(t => t.id === r.id);
  return trans ? { ...r, translatedText: trans.translatedText } : r; })\<close>
\<close>

definition applyTranslations :: "translation list \<Rightarrow> text_region list \<Rightarrow> text_region list" where
  "applyTranslations translations rs =
     map (\<lambda>r. case List.find (\<lambda>t. tr_id t = reg_id r) translations of
                 Some found \<Rightarrow> r\<lparr>translatedText := tr_translatedText found\<rparr>
               | None \<Rightarrow> r) rs"

text \<open>
  \<open>runAiTranslation\<close> once the awaited call has resolved to \<open>translations\<close>: guarded by
  the presence of a merged image with at least one region; the busy flag is reset in
  \<open>finally\<close>.
\<close>

definition runAiTranslation :: "translation list \<Rightarrow> app_state \<Rightarrow> app_state" where
  "runAiTranslation translations s =
     (case mergedImage s of
        None \<Rightarrow> s
      | Some m \<Rightarrow>
          if length (regions m) = 0 then s
          else s\<lparr>mergedImage := Some (m\<lparr>regions := applyTranslations translations (regions m)\<rparr>),
                 isProcessing := False\<rparr>)"

text \<open>
  The specification's lookup for comparison: a mapping from id to translated text, where
  the first entry for an id counts.
\<close>

definition translation_lookup :: "translation list \<Rightarrow> string \<Rightarrow> string option" where
  "translation_lookup translations = map_of (map (\<lambda>t. (tr_id t, tr_translatedText t)) translations)"

section \<open>Translation service call (translateOcrResults)\<close>

text \<open>
  A JavaScript string value as the language defines it: a sequence of 16-bit UTF-16 code
  units. It is used for the service's response text, where \<open>trim\<close> looks at code units
  beyond ASCII. \<open>js_ascii\<close> writes an ASCII literal as such a sequence.
\<close>

type_synonym js_string = "16 word list"

definition js_ascii :: "string \<Rightarrow> js_string" where
  "js_ascii t = map of_char t"

text \<open>A parsed JSON value, the \<open>any\<close> that \<open>JSON.parse\<close> returns.\<close>

datatype json =
    JNull
  | JBool bool
  | JNumber real
  | JString js_string
  | JArray "json list"
  | JObject "(js_string \<times> json) list"

record ocr_input =
  ocr_id :: string
  ocr_originalText :: string

text \<open>
  What the awaited \<open>generateContent\<close> call does: it throws (or rejects), or it yields a
  response whose \<open>text\<close> is a string or \<open>undefined\<close>.
\<close>

datatype service_outcome = ServiceThrows | ServiceResponds "js_string option"

datatype js_error = ServiceError | SyntaxError

text \<open>
  \<open>String.prototype.trim\<close> strips, from both ends, the code units that ECMAScript
  counts as WhiteSpace or LineTerminator: U+0009 to U+000D, U+0020, U+00A0, U+1680,
  U+2000 to U+200A, U+2028, U+2029, U+202F, U+205F, U+3000 and U+FEFF.
\<close>

definition is_js_space :: "16 word \<Rightarrow> bool" where
  "is_js_space c =
     (c \<in> set [0x0009, 0x000A, 0x000B, 0x000C, 0x000D, 0x0020, 0x00A0, 0x1680,
                0x2000, 0x2001, 0x2002, 0x2003, 0x2004, 0x2005, 0x2006, 0x2007,
                0x2008, 0x2009, 0x200A, 0x2028, 0x2029, 0x202F, 0x205F, 0x3000, 0xFEFF])"

definition js_trim :: "js_string \<Rightarrow> js_string" where
  "js_trim t = rev (dropWhile is_js_space (rev (dropWhile is_js_space t)))"

text \<open>
  The body of the \<open>try\<close> block. \<open>JSON_parse\<close> stands for the built-in \<open>JSON.parse\<close>
  (\<open>None\<close>: it throws a SyntaxError); \<open>response.text?.trim() || '[]'\<close> replaces an absent
  or blank text by \<open>'[]'\<close>.
\<close>

definition try_block :: "(js_string \<Rightarrow> json option) \<Rightarrow> service_outcome \<Rightarrow> js_error + json" where
  "try_block JSON_parse outcome =
     (case outcome of
        ServiceThrows \<Rightarrow> Inl ServiceError
      | ServiceResponds response_text \<Rightarrow>
          (let jsonStr = (case response_text of
                            None \<Rightarrow> js_ascii ''[]''
                          | Some t \<Rightarrow> if js_trim t = [] then js_ascii ''[]'' else js_trim t)
           in case JSON_parse jsonStr of
                None \<Rightarrow> Inl SyntaxError
              | Some v \<Rightarrow> Inr v))"

text \<open>
  \<open>translateOcrResults\<close>: \<open>Inl\<close> would be an exception reaching the caller, \<open>Inr\<close> the
  resolved value. \<open>service\<close> is the remote call as a function of the request.
\<close>

definition translateOcrResults ::
  "(js_string \<Rightarrow> json option) \<Rightarrow> string \<Rightarrow> (ocr_input list \<Rightarrow> string \<Rightarrow> string \<Rightarrow> service_outcome)
     \<Rightarrow> ocr_input list \<Rightarrow> string \<Rightarrow> string \<Rightarrow> js_error + json" where
  "translateOcrResults JSON_parse apiKey service ocrData sourceLang targetLang =
     (if length ocrData = 0 then Inr (JArray [])
      else if apiKey = [] then Inr (JArray [])
      else (case try_block JSON_parse (service ocrData sourceLang targetLang) of
              Inl e \<Rightarrow> Inr (JArray [])
            | Inr v \<Rightarrow> Inr v))"

section \<open>Example data\<close>

text \<open>A concrete session used to exercise the theorems below.\<close>

definition sample_data :: "real \<Rightarrow> region_data" where
  "sample_data p = \<lparr>reg_x = p, reg_y = p, reg_width = 20, reg_height = 10,
                     originalText = [], translatedText = []\<rparr>"

definition sample_state :: app_state where
  "sample_state = \<lparr>images = [], mergedImage = Some \<lparr>url = \<lparr>img_width = 600, img_height = 1400\<rparr>,
                                                      regions = []\<rparr>,
                    selectedRegionId = None, isProcessing = False,
                    mode = MERGED_EDITOR\<rparr>"

definition sample_ops :: "region_op list" where
  "sample_ops = [Add ''a'' (sample_data 10), Add ''b'' (sample_data 30),
                 Add ''c'' (sample_data 50), Remove ''b'']"

text \<open>A two-region scene with overlapping boxes, used to exercise the theorems.\<close>

definition sample_rect :: client_rect where
  "sample_rect = \<lparr>rect_left = 0, rect_top = 0, rect_width = 200, rect_height = 400\<rparr>"

definition idle :: canvas_state where
  "idle = \<lparr>isDrawing = False, startPos = None, currentRect = None\<rparr>"

definition sample_regions :: "text_region list" where
  "sample_regions =
     [\<lparr>reg_x = 10, reg_y = 10, reg_width = 20, reg_height = 20, originalText = [],
       translatedText = [], reg_id = ''low'', reg_order = 1\<rparr>,
      \<lparr>reg_x = 20, reg_y = 20, reg_width = 20, reg_height = 20, originalText = [],
       translatedText = [], reg_id = ''high'', reg_order = 2\<rparr>]"

text \<open>
  The drag of the specification's scenario: press at (10%, 10%) on an image without
  regions, move to (30%, 20%).
\<close>

definition sample_drag :: canvas_state where
  "sample_drag =
     handleMouseMove (Some sample_rect) 60 80
       (fst (handleMouseDown (Some sample_rect) 20 40 [] idle))"

text \<open>The two uploaded pages of the specification's scenario: 600 x 800 and 500 x 600.\<close>

definition sample_pages :: "webtoon_image list" where
  "sample_pages =
     [\<lparr>image_id = ''p1'', previewUrl = ''blob:1'', width = Some 600, height = Some 800\<rparr>,
      \<lparr>image_id = ''p2'', previewUrl = ''blob:2'', width = Some 500, height = Some 600\<rparr>]"

definition upload_state :: app_state where
  "upload_state = \<lparr>images = sample_pages, mergedImage = None, selectedRegionId = None,
                    isProcessing = False, mode = UPLOAD\<rparr>"

text \<open>A measure for examples: ten pixels per character.\<close>

definition ten_per_char :: "string \<Rightarrow> real" where
  "ten_per_char t = 10 * real (length t)"

text \<open>A 600 x 1400 working image with one region whose texts are both empty.\<close>

definition blank_region :: text_region where
  "blank_region = \<lparr>reg_x = 10, reg_y = 10, reg_width = 20, reg_height = 10,
                     originalText = [], translatedText = [],
                     reg_id = ''a'', reg_order = 1\<rparr>"

definition blank_state :: app_state where
  "blank_state = \<lparr>images = [],
                   mergedImage = Some \<lparr>url = \<lparr>img_width = 600, img_height = 1400\<rparr>,
                                       regions = [blank_region]\<rparr>,
                   selectedRegionId = None, isProcessing = False, mode = MERGED_EDITOR\<rparr>"

text \<open>A result array with a duplicate id and an id that matches no region.\<close>

definition sample_translations :: "translation list" where
  "sample_translations =
     [\<lparr>tr_id = ''high'', tr_translatedText = ''Merhaba''\<rparr>,
      \<lparr>tr_id = ''high'', tr_translatedText = ''Selam''\<rparr>,
      \<lparr>tr_id = ''gone'', tr_translatedText = ''Yok''\<rparr>]"

text \<open>
  A fragment of \<open>JSON.parse\<close> for the examples: it agrees with \<open>JSON.parse\<close> on the
  texts \<open>[]\<close> and \<open>{}\<close> and reports a syntax error on every other text, as \<open>JSON.parse\<close>
  does on the non-JSON text \<open>nope\<close> used below.
\<close>

definition parse_sample :: "js_string \<Rightarrow> json option" where
  "parse_sample t =
     (if t = js_ascii ''[]'' then Some (JArray [])
      else if t = js_ascii ''{}'' then Some (JObject [])
      else None)"

text \<open>
  Response texts for the examples: the text \<open>{}\<close> behind a no-break space (U+00A0), and
  the same text between a vertical tab and a byte-order mark with a line separator.
\<close>

definition nbsp_object :: js_string where
  "nbsp_object = 0x00A0 # js_ascii ''{}''"

definition padded_object :: js_string where
  "padded_object = 0x000B # js_ascii ''{}'' @ [0xFEFF, 0x2028]"

definition sample_request :: "ocr_input list" where
  "sample_request = [\<lparr>ocr_id = ''a'', ocr_originalText = ''annyeong''\<rparr>]"

text \<open>A rounding for examples: every result comes out too large by one part in 1024.\<close>

definition round_up_1024 :: "real \<Rightarrow> real" where
  "round_up_1024 x = x * (1025 / 1024)"

text \<open>A region with text on a 100 x 100 image: 50 pixels wide, so the line limit is 42.5.\<close>

definition titled_region :: text_region where
  "titled_region = \<lparr>reg_x = 10, reg_y = 10, reg_width = 50, reg_height = 10,
                      originalText = ''abcdefghij b c'', translatedText = [],
                      reg_id = ''t'', reg_order = 1\<rparr>"

section \<open>Properties of region sequencing\<close>

lemma length_renumber: "length (renumber rs) = length rs"
  by (simp add: renumber_def)

lemma nth_renumber:
  "i < length rs \<Longrightarrow> renumber rs ! i = (rs ! i)\<lparr>reg_order := int i + 1\<rparr>"
  by (simp add: renumber_def nth_enumerate_eq)

lemma upto_as_map: "[1..int n] = map (\<lambda>i. int i + 1) [0..<n]"
proof (induction n)
  case 0
  show ?case by simp
next
  case (Suc n)
  have "[1..int (Suc n)] = [1..int n] @ [int n + 1]"
    using upto_rec2 [of 1 "int (Suc n)"] by (simp add: add.commute)
  with Suc show ?case by simp
qed

lemma dense_renumber: "dense_orders (renumber rs)"
proof -
  have "map reg_order (renumber rs) = map (\<lambda>i. int i + 1) [0..<length rs]"
    by (rule nth_equalityI) (simp_all add: length_renumber nth_renumber)
  then show ?thesis
    by (simp add: dense_orders_def length_renumber upto_as_map)
qed

lemma payloads_renumber: "payloads (renumber rs) = payloads rs"
  by (rule nth_equalityI)
     (simp_all add: payloads_def length_renumber nth_renumber region_data.truncate_def)

lemma dense_append:
  assumes "dense_orders rs" and "reg_order r = int (length rs) + 1"
  shows "dense_orders (rs @ [r])"
proof -
  have "[1..int (length rs) + 1] = [1..int (length rs)] @ [int (length rs) + 1]"
    using upto_rec2 [of 1 "int (length rs) + 1"] by simp
  with assms show ?thesis
    by (simp add: dense_orders_def add.commute)
qed

lemma addRegion_regions:
  "mergedImage s = Some m \<Longrightarrow>
   regions_of (addRegion fresh data s) =
     regions m @ [\<lparr>reg_x = reg_x data, reg_y = reg_y data,
                    reg_width = reg_width data, reg_height = reg_height data,
                    originalText = originalText data,
                    translatedText = translatedText data,
                    reg_id = fresh, reg_order = int (length (regions m)) + 1\<rparr>]"
  by (simp add: addRegion_def regions_of_def Let_def)

lemma removeRegion_regions:
  "mergedImage s = Some m \<Longrightarrow>
   regions_of (removeRegion rid s) = renumber (filter (\<lambda>r. reg_id r \<noteq> rid) (regions m))"
  by (simp add: removeRegion_def regions_of_def Let_def)

lemma apply_region_op_keeps_image:
  "mergedImage s \<noteq> None \<Longrightarrow> mergedImage (apply_region_op ro s) \<noteq> None"
  by (cases ro) (auto simp: addRegion_def removeRegion_def Let_def)

lemma apply_region_op_dense:
  assumes "mergedImage s \<noteq> None" and "dense_orders (regions_of s)"
  shows "dense_orders (regions_of (apply_region_op ro s))"
proof -
  from assms(1) obtain m where m: "mergedImage s = Some m" by auto
  show ?thesis
  proof (cases ro)
    case (Add fresh data)
    from assms(2) m have "dense_orders (regions m)" by (simp add: regions_of_def)
    then show ?thesis
      using Add m by (simp add: addRegion_regions dense_append)
  next
    case (Remove rid)
    then show ?thesis
      using m by (simp add: removeRegion_regions dense_renumber)
  qed
qed

lemma run_region_ops_dense:
  "mergedImage s \<noteq> None \<Longrightarrow> dense_orders (regions_of s) \<Longrightarrow>
   mergedImage (run_region_ops ops s) \<noteq> None \<and>
   dense_orders (regions_of (run_region_ops ops s))"
  unfolding run_region_ops_def
proof (induction ops arbitrary: s)
  case Nil
  then show ?case by simp
next
  case (Cons ro ops)
  have "mergedImage (apply_region_op ro s) \<noteq> None"
    using Cons.prems(1) by (rule apply_region_op_keeps_image)
  moreover have "dense_orders (regions_of (apply_region_op ro s))"
    using Cons.prems by (rule apply_region_op_dense)
  ultimately show ?case
    using Cons.IH by simp
qed

lemma dense_orders_distinct: "dense_orders rs \<Longrightarrow> distinct (map reg_order rs)"
  by (simp add: dense_orders_def)

lemma dense_orders_set:
  "dense_orders rs \<Longrightarrow> set (map reg_order rs) = {1..int (length rs)}"
  by (simp add: dense_orders_def)

lemma payloads_filter:
  "payloads (filter (\<lambda>r. reg_id r \<noteq> rid) rs) = filter (\<lambda>p. fst p \<noteq> rid) (payloads rs)"
  by (simp add: payloads_def filter_map comp_def)

lemma sample_run:
  "regions_of (run_region_ops sample_ops sample_state) =
     [\<lparr>reg_x = 10, reg_y = 10, reg_width = 20, reg_height = 10, originalText = [],
       translatedText = [], reg_id = ''a'', reg_order = 1\<rparr>,
      \<lparr>reg_x = 50, reg_y = 50, reg_width = 20, reg_height = 10, originalText = [],
       translatedText = [], reg_id = ''c'', reg_order = 2\<rparr>]"
  by (simp add: run_region_ops_def sample_ops_def sample_state_def sample_data_def
      addRegion_def removeRegion_def regions_of_def renumber_def enumerate_eq_zip Let_def)

text \<open>
  Claim C1. Starting from a merged image with no regions, after any sequence of
  \<open>addRegion\<close> and \<open>removeRegion\<close> calls the orders of the surviving regions, read in
  list order, are exactly 1, 2, ..., M, where M is the number of surviving regions; hence
  they have no duplicates and no gaps. A removal (from any region list) keeps the surviving
  regions' identifiers, bounds and texts in their previous relative order and gives the
  region at 0-based position i the order i + 1.
\<close>

theorem region_orders_dense:
  assumes "mergedImage s0 = Some m0" and "regions m0 = []"
    and "mergedImage s = Some m"
  shows "map reg_order (regions_of (run_region_ops ops s0)) =
           [1..int (length (regions_of (run_region_ops ops s0)))]
       \<and> distinct (map reg_order (regions_of (run_region_ops ops s0)))
       \<and> set (map reg_order (regions_of (run_region_ops ops s0))) =
           {1..int (length (regions_of (run_region_ops ops s0)))}
       \<and> payloads (regions_of (removeRegion rid s)) =
           filter (\<lambda>p. fst p \<noteq> rid) (payloads (regions m))
       \<and> (\<forall>i < length (regions_of (removeRegion rid s)).
             reg_order (regions_of (removeRegion rid s) ! i) = int i + 1)"
proof -
  have start: "mergedImage s0 \<noteq> None" "dense_orders (regions_of s0)"
    using assms(1,2) by (simp_all add: regions_of_def dense_orders_def)
  have d: "dense_orders (regions_of (run_region_ops ops s0))"
    using run_region_ops_dense [OF start] by simp
  have rm: "regions_of (removeRegion rid s) =
              renumber (filter (\<lambda>r. reg_id r \<noteq> rid) (regions m))"
    using assms(3) by (rule removeRegion_regions)
  have p: "payloads (regions_of (removeRegion rid s)) =
             filter (\<lambda>p. fst p \<noteq> rid) (payloads (regions m))"
    by (simp add: rm payloads_renumber payloads_filter)
  have n: "\<forall>i < length (regions_of (removeRegion rid s)).
             reg_order (regions_of (removeRegion rid s) ! i) = int i + 1"
    by (simp add: rm length_renumber nth_renumber)
  from d have "map reg_order (regions_of (run_region_ops ops s0)) =
                 [1..int (length (regions_of (run_region_ops ops s0)))]"
    by (simp add: dense_orders_def)
  with dense_orders_distinct [OF d] dense_orders_set [OF d] p n show ?thesis
    by blast
qed

theorem region_orders_dense_witness:
  "mergedImage sample_state =
     Some \<lparr>url = \<lparr>img_width = 600, img_height = 1400\<rparr>, regions = []\<rparr>
   \<and> map reg_order (regions_of (run_region_ops sample_ops sample_state)) = [1, 2]
   \<and> map reg_id (regions_of (run_region_ops sample_ops sample_state)) = [''a'', ''c'']
   \<and> map fst (payloads (regions_of (removeRegion ''a''
        (run_region_ops sample_ops sample_state)))) = [''c'']
   \<and> reg_order (regions_of (removeRegion ''a''
         (run_region_ops sample_ops sample_state)) ! 0) = 1"
proof -
  let ?m0 = "\<lparr>url = \<lparr>img_width = 600, img_height = 1400\<rparr>, regions = []\<rparr>"
  let ?s = "run_region_ops sample_ops sample_state"
  have h1: "mergedImage sample_state = Some ?m0"
    by (simp add: sample_state_def)
  have h2: "regions ?m0 = []" by simp
  have "mergedImage ?s \<noteq> None"
    using run_region_ops_dense [of sample_state sample_ops] h1
    by (simp add: regions_of_def dense_orders_def)
  then obtain m where h3: "mergedImage ?s = Some m" by auto
  have rm: "regions m = regions_of ?s"
    using h3 by (simp add: regions_of_def)
  note inst = region_orders_dense [OF h1 h2 h3, of sample_ops "''a''"]
  have p: "map fst (payloads (regions_of (removeRegion ''a'' ?s))) = [''c'']"
    using inst by (simp add: rm sample_run payloads_def)
  then have "0 < length (regions_of (removeRegion ''a'' ?s))"
    by (auto simp: payloads_def)
  with inst have "reg_order (regions_of (removeRegion ''a'' ?s) ! 0) = 1"
    by auto
  with p h1 show ?thesis
    by (simp add: sample_run)
qed

text \<open>
  Claim C10. Whenever a merged image exists (the only situation in which the editor that
  calls \<open>removeRegion\<close> is on screen), \<open>removeRegion\<close> leaves no region selected, whatever
  the identifier passed in, whatever was selected before, and whether or not the identifier
  matches a region.
\<close>

theorem removeRegion_clears_selection:
  "mergedImage s = Some m \<Longrightarrow> selectedRegionId (removeRegion rid s) = None"
  by (simp add: removeRegion_def Let_def)

theorem removeRegion_clears_selection_witness:
  "mergedImage (sample_state\<lparr>selectedRegionId := Some ''a''\<rparr>) =
     Some \<lparr>url = \<lparr>img_width = 600, img_height = 1400\<rparr>, regions = []\<rparr>
   \<and> selectedRegionId (sample_state\<lparr>selectedRegionId := Some ''a''\<rparr>) = Some ''a''
   \<and> selectedRegionId (removeRegion ''zzz'' (sample_state\<lparr>selectedRegionId := Some ''a''\<rparr>)) = None"
proof -
  have h: "mergedImage (sample_state\<lparr>selectedRegionId := Some ''a''\<rparr>) =
     Some \<lparr>url = \<lparr>img_width = 600, img_height = 1400\<rparr>, regions = []\<rparr>"
    by (simp add: sample_state_def)
  show ?thesis
    using h removeRegion_clears_selection [OF h, of "''zzz''"]
    by (simp add: sample_state_def)
qed

section \<open>Properties of the region editor\<close>

lemma find_sort_desc_order:
  assumes "List.find P (sort_desc_order rs) = Some r"
  shows "r \<in> set rs \<and> P r \<and> (\<forall>r' \<in> set rs. P r' \<longrightarrow> reg_order r' \<le> reg_order r)"
proof -
  let ?xs = "sort_desc_order rs"
  from assms obtain i where i: "i < length ?xs" "P (?xs ! i)" "r = ?xs ! i"
    and first: "\<forall>j<i. \<not> P (?xs ! j)"
    by (auto simp: find_Some_iff)
  have set: "set ?xs = set rs" by (simp add: sort_desc_order_def)
  have srt: "sorted (map (\<lambda>r. - reg_order r) ?xs)"
    by (simp add: sort_desc_order_def)
  have "reg_order r' \<le> reg_order r" if "r' \<in> set rs" "P r'" for r'
  proof -
    from that(1) set obtain j where j: "j < length ?xs" "r' = ?xs ! j"
      by (metis in_set_conv_nth)
    with first that(2) have "i \<le> j" by (meson not_le)
    with srt j(1) have "map (\<lambda>r. - reg_order r) ?xs ! i \<le> map (\<lambda>r. - reg_order r) ?xs ! j"
      by (simp add: sorted_iff_nth_mono)
    with i j show ?thesis by simp
  qed
  moreover have "r \<in> set rs" using i set by (metis nth_mem)
  ultimately show ?thesis using i by blast
qed

lemma find_sort_desc_order_None:
  "List.find P (sort_desc_order rs) = None \<longleftrightarrow> (\<forall>r \<in> set rs. \<not> P r)"
  by (auto simp: find_None_iff sort_desc_order_def)

text \<open>
  Claim C4. On pointer-down in a container of positive size, let (px, py) be the pointer
  position in percent. If some region contains (px, py) under the closed test
  px in [x, x + width] and py in [y, y + height], then the handler selects a region that
  contains the point and whose order is greatest among all regions containing it (so of two
  overlapping regions the one with the higher order wins), and the component state is
  left as it was: no transition to Drawing. If no region contains the point, the selection
  is cleared and Drawing begins with anchor (px, py) and a zero-size pending rectangle there.
\<close>

theorem pointer_down_hit_test:
  assumes "container = Some rect" and "rect_width rect > 0" and "rect_height rect > 0"
    and "px = toPercent clientX (rect_left rect) (rect_width rect)"
    and "py = toPercent clientY (rect_top rect) (rect_height rect)"
  shows "((\<exists>r \<in> set regs. hit px py r) \<longrightarrow>
            (\<exists>r \<in> set regs. hit px py r
               \<and> (\<forall>r' \<in> set regs. hit px py r' \<longrightarrow> reg_order r' \<le> reg_order r)
               \<and> handleMouseDown container clientX clientY regs cs =
                   (cs, [OnSelectRegion (Some (reg_id r))])
               \<and> selectedRegionId
                   (deliver fresh (snd (handleMouseDown container clientX clientY regs cs)) s) =
                   Some (reg_id r)))
       \<and> ((\<forall>r \<in> set regs. \<not> hit px py r) \<longrightarrow>
            handleMouseDown container clientX clientY regs cs =
              (\<lparr>isDrawing = True, startPos = Some (px, py),
                currentRect = Some \<lparr>rc_x = px, rc_y = py, rc_w = 0, rc_h = 0\<rparr>\<rparr>,
               [OnSelectRegion None])
            \<and> selectedRegionId
                (deliver fresh (snd (handleMouseDown container clientX clientY regs cs)) s) =
                None)"
proof (cases "List.find (hit px py) (sort_desc_order regs)")
  case None
  then have no: "\<forall>r \<in> set regs. \<not> hit px py r"
    by (simp add: find_sort_desc_order_None)
  have "handleMouseDown container clientX clientY regs cs =
          (\<lparr>isDrawing = True, startPos = Some (px, py),
            currentRect = Some \<lparr>rc_x = px, rc_y = py, rc_w = 0, rc_h = 0\<rparr>\<rparr>,
           [OnSelectRegion None])"
    using None assms(1,4,5) by (simp add: handleMouseDown_def Let_def)
  with no show ?thesis
    by (simp add: deliver_def)
next
  case (Some r)
  from find_sort_desc_order [OF Some]
  have r: "r \<in> set regs" "hit px py r"
    "\<forall>r' \<in> set regs. hit px py r' \<longrightarrow> reg_order r' \<le> reg_order r"
    by blast+
  have "handleMouseDown container clientX clientY regs cs =
          (cs, [OnSelectRegion (Some (reg_id r))])"
    using Some assms(1,4,5) by (simp add: handleMouseDown_def Let_def)
  with r show ?thesis
    by (auto simp: deliver_def)
qed

theorem pointer_down_hit_test_witness:
  "handleMouseDown (Some sample_rect) 50 100 sample_regions idle =
     (idle, [OnSelectRegion (Some ''high'')])
   \<and> handleMouseDown (Some sample_rect) 50 100 (rev sample_regions) idle =
     (idle, [OnSelectRegion (Some ''high'')])
   \<and> handleMouseDown (Some sample_rect) 120 100 sample_regions idle =
     (\<lparr>isDrawing = True, startPos = Some (60, 25),
       currentRect = Some \<lparr>rc_x = 60, rc_y = 25, rc_w = 0, rc_h = 0\<rparr>\<rparr>,
      [OnSelectRegion None])"
proof -
  have pos: "rect_width sample_rect > 0" "rect_height sample_rect > 0"
    by (simp_all add: sample_rect_def)
  have px: "(25::real) = toPercent 50 (rect_left sample_rect) (rect_width sample_rect)"
    and py: "(25::real) = toPercent 100 (rect_top sample_rect) (rect_height sample_rect)"
    and qx: "(60::real) = toPercent 120 (rect_left sample_rect) (rect_width sample_rect)"
    by (simp_all add: toPercent_def sample_rect_def)
  have both: "\<forall>r \<in> set sample_regions. hit 25 25 r"
    by (simp add: sample_regions_def hit_def)
  have none: "\<forall>r \<in> set sample_regions. \<not> hit 60 25 r"
    by (simp add: sample_regions_def hit_def)
  have ne: "\<exists>r \<in> set sample_regions. hit 25 25 r"
    by (simp add: sample_regions_def hit_def)
  have a: "\<exists>r \<in> set sample_regions. (\<forall>r' \<in> set sample_regions. reg_order r' \<le> reg_order r)
             \<and> handleMouseDown (Some sample_rect) 50 100 sample_regions idle =
                 (idle, [OnSelectRegion (Some (reg_id r))])"
    using pointer_down_hit_test [OF refl pos px py, of sample_regions idle] both ne
    by blast
  have b: "\<exists>r \<in> set sample_regions. (\<forall>r' \<in> set sample_regions. reg_order r' \<le> reg_order r)
             \<and> handleMouseDown (Some sample_rect) 50 100 (rev sample_regions) idle =
                 (idle, [OnSelectRegion (Some (reg_id r))])"
    using pointer_down_hit_test [OF refl pos px py, of "rev sample_regions" idle] both ne
    by (simp only: set_rev) blast
  have c: "handleMouseDown (Some sample_rect) 120 100 sample_regions idle =
     (\<lparr>isDrawing = True, startPos = Some (60, 25),
       currentRect = Some \<lparr>rc_x = 60, rc_y = 25, rc_w = 0, rc_h = 0\<rparr>\<rparr>,
      [OnSelectRegion None])"
    using pointer_down_hit_test [OF refl pos qx py, of sample_regions idle] none
    by blast
  from a have a': "handleMouseDown (Some sample_rect) 50 100 sample_regions idle =
     (idle, [OnSelectRegion (Some ''high'')])"
    by (auto simp: sample_regions_def)
  from b have b': "handleMouseDown (Some sample_rect) 50 100 (rev sample_regions) idle =
     (idle, [OnSelectRegion (Some ''high'')])"
    by (auto simp: sample_regions_def)
  from a' b' c show ?thesis by blast
qed

lemma sample_drag_eq:
  "sample_drag = \<lparr>isDrawing = True, startPos = Some (10, 10),
                   currentRect = Some \<lparr>rc_x = 10, rc_y = 10, rc_w = 20, rc_h = 10\<rparr>\<rparr>"
  by (simp add: sample_drag_def handleMouseMove_def handleMouseDown_def sort_desc_order_def
      toPercent_def sample_rect_def idle_def Let_def)

lemma sample_click_eq:
  "fst (handleMouseDown (Some sample_rect) 20 40 [] idle) =
     \<lparr>isDrawing = True, startPos = Some (10, 10),
      currentRect = Some \<lparr>rc_x = 10, rc_y = 10, rc_w = 0, rc_h = 0\<rparr>\<rparr>"
  by (simp add: handleMouseDown_def sort_desc_order_def toPercent_def sample_rect_def
      idle_def Let_def)

text \<open>
  Claim C3. On pointer-up while drawing with a pending rectangle: the component always
  returns to the idle state with anchor and pending rectangle cleared. If the pending
  rectangle's width or height is at most 0.05, \<open>onAddRegion\<close> is not called and the
  application state is untouched. If both exceed 0.05, \<open>onAddRegion\<close> is called once with
  exactly the pending rectangle's x, y, width and height and with empty original and
  translated text, and the application (given a merged image) appends a region with these
  bounds and texts, the fresh identifier and order = previous count + 1.
\<close>

theorem pointer_up_commit:
  assumes "isDrawing cs" and "currentRect cs = Some rc"
  shows "fst (handleMouseUp cs) = \<lparr>isDrawing = False, startPos = None, currentRect = None\<rparr>
       \<and> (rc_w rc \<le> 0.05 \<or> rc_h rc \<le> 0.05 \<longrightarrow>
            snd (handleMouseUp cs) = []
            \<and> deliver fresh (snd (handleMouseUp cs)) s = s)
       \<and> (rc_w rc > 0.05 \<and> rc_h rc > 0.05 \<longrightarrow>
            snd (handleMouseUp cs) =
              [OnAddRegion \<lparr>reg_x = rc_x rc, reg_y = rc_y rc,
                             reg_width = rc_w rc, reg_height = rc_h rc,
                             originalText = [], translatedText = []\<rparr>]
            \<and> (\<forall>m. mergedImage s = Some m \<longrightarrow>
                  regions_of (deliver fresh (snd (handleMouseUp cs)) s) =
                    regions m @ [\<lparr>reg_x = rc_x rc, reg_y = rc_y rc,
                                   reg_width = rc_w rc, reg_height = rc_h rc,
                                   originalText = [], translatedText = [],
                                   reg_id = fresh,
                                   reg_order = int (length (regions m)) + 1\<rparr>]))"
proof -
  have cleared: "fst (handleMouseUp cs) =
                   \<lparr>isDrawing = False, startPos = None, currentRect = None\<rparr>"
    by (simp add: handleMouseUp_def)
  have small: "snd (handleMouseUp cs) = [] \<and> deliver fresh (snd (handleMouseUp cs)) s = s"
    if "rc_w rc \<le> 0.05 \<or> rc_h rc \<le> 0.05"
    using that assms by (auto simp: handleMouseUp_def deliver_def)
  have big: "snd (handleMouseUp cs) =
               [OnAddRegion \<lparr>reg_x = rc_x rc, reg_y = rc_y rc,
                              reg_width = rc_w rc, reg_height = rc_h rc,
                              originalText = [], translatedText = []\<rparr>]"
    if "rc_w rc > 0.05 \<and> rc_h rc > 0.05"
    using that assms by (simp add: handleMouseUp_def)
  have added: "regions_of (deliver fresh (snd (handleMouseUp cs)) s) =
                 regions m @ [\<lparr>reg_x = rc_x rc, reg_y = rc_y rc,
                                reg_width = rc_w rc, reg_height = rc_h rc,
                                originalText = [], translatedText = [],
                                reg_id = fresh,
                                reg_order = int (length (regions m)) + 1\<rparr>]"
    if "rc_w rc > 0.05 \<and> rc_h rc > 0.05" "mergedImage s = Some m" for m
    using big [OF that(1)] that(2) by (simp add: deliver_def addRegion_regions)
  from cleared small big added show ?thesis
    by blast
qed

theorem pointer_up_commit_witness:
  "regions_of (deliver ''k3j9x'' (snd (handleMouseUp sample_drag)) sample_state) =
     [\<lparr>reg_x = 10, reg_y = 10, reg_width = 20, reg_height = 10,
       originalText = [], translatedText = [], reg_id = ''k3j9x'', reg_order = 1\<rparr>]
   \<and> fst (handleMouseUp sample_drag) = idle
   \<and> deliver ''k3j9x''
       (snd (handleMouseUp (fst (handleMouseDown (Some sample_rect) 20 40 [] idle))))
       sample_state = sample_state"
proof -
  let ?rc = "\<lparr>rc_x = 10, rc_y = 10, rc_w = 20, rc_h = 10\<rparr>"
  let ?dot = "\<lparr>rc_x = 10, rc_y = 10, rc_w = 0, rc_h = 0\<rparr>"
  let ?click = "fst (handleMouseDown (Some sample_rect) 20 40 [] idle)"
  have d: "isDrawing sample_drag" "currentRect sample_drag = Some ?rc"
    by (simp_all add: sample_drag_eq)
  have c: "isDrawing ?click" "currentRect ?click = Some ?dot"
    by (simp_all add: sample_click_eq)
  have m: "mergedImage sample_state =
             Some \<lparr>url = \<lparr>img_width = 600, img_height = 1400\<rparr>, regions = []\<rparr>"
    by (simp add: sample_state_def)
  have "regions_of (deliver ''k3j9x'' (snd (handleMouseUp sample_drag)) sample_state) =
     [\<lparr>reg_x = 10, reg_y = 10, reg_width = 20, reg_height = 10,
       originalText = [], translatedText = [], reg_id = ''k3j9x'', reg_order = 1\<rparr>]"
    using pointer_up_commit [OF d, of "''k3j9x''" sample_state] m by auto
  moreover have "fst (handleMouseUp sample_drag) = idle"
    using pointer_up_commit [OF d, of "''k3j9x''" sample_state] by (simp add: idle_def)
  moreover have "deliver ''k3j9x'' (snd (handleMouseUp ?click)) sample_state = sample_state"
    using pointer_up_commit [OF c, of "''k3j9x''" sample_state] by auto
  ultimately show ?thesis by blast
qed

section \<open>Properties of the compositor\<close>

lemma Math_max_Max: "xs \<noteq> [] \<Longrightarrow> Math_max xs = Some (Max (set xs))"
proof (cases xs)
  case Nil
  assume "xs \<noteq> []"
  with Nil show ?thesis by simp
next
  case (Cons x ys)
  have "fold max ys x = Max (set (x # ys))"
    by (rule Max.set_eq_fold [symmetric])
  with Cons show ?thesis by simp
qed

lemma fold_add_heights:
  "fold (\<lambda>img sum. sum + or0 (height img)) imgs a = a + sum_list (map (\<lambda>img. or0 (height img)) imgs)"
  by (induction imgs arbitrary: a) simp_all

lemma merge_loop_acc: "merge_loop imgs y acc = acc @ merge_loop imgs y []"
proof (induction imgs arbitrary: y acc)
  case Nil
  show ?case by simp
next
  case (Cons i imgs)
  let ?d = "DrawImage (previewUrl i) 0 y (width i) (height i)"
  let ?y = "case (y, height i) of (Some a, Some h) \<Rightarrow> Some (a + h) | _ \<Rightarrow> None"
  have "merge_loop (i # imgs) y acc = (acc @ [?d]) @ merge_loop imgs ?y []"
    using Cons.IH [of ?y "acc @ [?d]"] by simp
  moreover have "merge_loop (i # imgs) y [] = [?d] @ merge_loop imgs ?y []"
    using Cons.IH [of ?y "[?d]"] by simp
  ultimately show ?case by simp
qed

lemma length_merge_loop: "length (merge_loop imgs y acc) = length acc + length imgs"
  by (induction imgs arbitrary: y acc) simp_all

lemma nth_merge_loop:
  assumes "map height imgs = map Some hs" and "k < length imgs"
  shows "merge_loop imgs (Some y) [] ! k =
           DrawImage (previewUrl (imgs ! k)) 0 (Some (y + sum_list (take k hs)))
             (width (imgs ! k)) (height (imgs ! k))"
  using assms
proof (induction imgs arbitrary: y k hs)
  case Nil
  then show ?case by simp
next
  case (Cons i imgs)
  from Cons.prems(1) obtain h hs' where hs: "hs = h # hs'" "height i = Some h"
    "map height imgs = map Some hs'"
    by (cases hs) auto
  have step: "merge_loop (i # imgs) (Some y) [] =
                DrawImage (previewUrl i) 0 (Some y) (width i) (height i)
                  # merge_loop imgs (Some (y + h)) []"
    using hs(2) merge_loop_acc [of imgs "Some (y + h)"
        "[DrawImage (previewUrl i) 0 (Some y) (width i) (height i)]"]
    by simp
  show ?case
  proof (cases k)
    case 0
    then show ?thesis unfolding step by simp
  next
    case (Suc j)
    with Cons.prems(2) have "j < length imgs" by simp
    from Cons.IH [OF hs(3) this, of "y + h"] show ?thesis
      unfolding step by (simp add: Suc hs(1) add.assoc)
  qed
qed

text \<open>
  Claim C5. For a non-empty image sequence with known widths \<open>ws\<close> and heights \<open>hs\<close>,
  a 2D context and images that decode, the merge yields a canvas of width max \<open>ws\<close> and
  height sum \<open>hs\<close>; it issues one draw call per image, in sequence, the k-th at x = 0 and
  y = the sum of the heights of the images before it, with the image's own width and
  height; and the handler completes, storing a merged image of that size with no regions
  and switching to the editor. For an empty sequence the handler returns the state as it is.
\<close>

theorem compositor_dimensions:
  assumes "images s \<noteq> []"
    and "map width (images s) = map Some ws" and "map height (images s) = map Some hs"
    and "has_ctx" and "\<forall>i \<in> set (images s). decodes (previewUrl i)"
  shows "canvas_width (mergeCanvas (images s)) = Max (set ws)
       \<and> canvas_height (mergeCanvas (images s)) = sum_list hs
       \<and> length (canvas_ops (mergeCanvas (images s))) = length (images s)
       \<and> (\<forall>k < length (images s).
             canvas_ops (mergeCanvas (images s)) ! k =
               DrawImage (previewUrl (images s ! k)) 0 (Some (sum_list (take k hs)))
                 (Some (ws ! k)) (Some (hs ! k)))
       \<and> mergeImagesOnly has_ctx decodes s =
           Some (s\<lparr>mergedImage := Some \<lparr>url = \<lparr>img_width = Max (set ws),
                                                  img_height = sum_list hs\<rparr>,
                                          regions = []\<rparr>,
                   mode := MERGED_EDITOR, isProcessing := False\<rparr>)
       \<and> (images s0 = [] \<longrightarrow> mergeImagesOnly has_ctx0 decodes0 s0 = Some s0)"
proof -
  let ?imgs = "images s"
  have lw: "length ws = length ?imgs" and lh: "length hs = length ?imgs"
    using assms(2,3) by (metis length_map)+
  have w_eq: "map (\<lambda>img. or0 (width img)) ?imgs = ws"
  proof -
    have "map (\<lambda>img. or0 (width img)) ?imgs = map or0 (map width ?imgs)" by simp
    also have "\<dots> = ws" by (simp add: assms(2) comp_def)
    finally show ?thesis .
  qed
  have h_eq: "map (\<lambda>img. or0 (height img)) ?imgs = hs"
  proof -
    have "map (\<lambda>img. or0 (height img)) ?imgs = map or0 (map height ?imgs)" by simp
    also have "\<dots> = hs" by (simp add: assms(3) comp_def)
    finally show ?thesis .
  qed
  have "ws \<noteq> []" using assms(1) lw by auto
  then have cw: "canvas_width (mergeCanvas ?imgs) = Max (set ws)"
    by (simp add: mergeCanvas_def Let_def w_eq Math_max_Max)
  have ch: "canvas_height (mergeCanvas ?imgs) = sum_list hs"
    by (simp add: mergeCanvas_def Let_def fold_add_heights h_eq)
  have len: "length (canvas_ops (mergeCanvas ?imgs)) = length ?imgs"
    by (simp add: mergeCanvas_def Let_def length_merge_loop)
  have ops: "canvas_ops (mergeCanvas ?imgs) ! k =
               DrawImage (previewUrl (?imgs ! k)) 0 (Some (sum_list (take k hs)))
                 (Some (ws ! k)) (Some (hs ! k))"
    if k: "k < length ?imgs" for k
  proof -
    have "width (?imgs ! k) = map width ?imgs ! k" using k by simp
    then have wk: "width (?imgs ! k) = Some (ws ! k)"
      using k lw by (simp add: assms(2))
    have "height (?imgs ! k) = map height ?imgs ! k" using k by simp
    then have hk: "height (?imgs ! k) = Some (hs ! k)"
      using k lh by (simp add: assms(3))
    show ?thesis
      using nth_merge_loop [OF assms(3) k, of 0]
      by (simp add: mergeCanvas_def Let_def wk hk)
  qed
  have dec: "list_all (\<lambda>imgData. decodes (previewUrl imgData)) ?imgs"
    using assms(5) by (simp add: list_all_iff)
  have run: "mergeImagesOnly has_ctx decodes s =
               Some (s\<lparr>mergedImage := Some \<lparr>url = \<lparr>img_width = Max (set ws),
                                                      img_height = sum_list hs\<rparr>,
                                              regions = []\<rparr>,
                       mode := MERGED_EDITOR, isProcessing := False\<rparr>)"
    using assms(1,4) dec
    by (simp add: mergeImagesOnly_def Let_def toDataURL_def cw ch)
  have empty: "images s0 = [] \<longrightarrow> mergeImagesOnly has_ctx0 decodes0 s0 = Some s0"
    by (simp add: mergeImagesOnly_def)
  from cw ch len ops run empty show ?thesis
    by blast
qed

theorem compositor_dimensions_witness:
  "mergeImagesOnly True (\<lambda>u. True) upload_state =
     Some \<lparr>images = sample_pages,
           mergedImage = Some \<lparr>url = \<lparr>img_width = 600, img_height = 1400\<rparr>, regions = []\<rparr>,
           selectedRegionId = None, isProcessing = False, mode = MERGED_EDITOR\<rparr>
   \<and> canvas_ops (mergeCanvas sample_pages) ! 1 =
       DrawImage ''blob:2'' 0 (Some 800) (Some 500) (Some 600)
   \<and> mergeImagesOnly True (\<lambda>u. True) (upload_state\<lparr>images := []\<rparr>) =
       Some (upload_state\<lparr>images := []\<rparr>)"
proof -
  have h1: "images upload_state \<noteq> []"
    and h2: "map width (images upload_state) = map Some [600, 500]"
    and h3: "map height (images upload_state) = map Some [800, 600]"
    and h5: "\<forall>i \<in> set (images upload_state). (\<lambda>u. True) (previewUrl i)"
    and h6: "images (upload_state\<lparr>images := []\<rparr>) = []"
    by (simp_all add: upload_state_def sample_pages_def)
  note inst = compositor_dimensions [OF h1 h2 h3 TrueI h5,
      of "upload_state\<lparr>images := []\<rparr>" True "\<lambda>u. True"]
  have a: "mergeImagesOnly True (\<lambda>u. True) upload_state =
     Some \<lparr>images = sample_pages,
           mergedImage = Some \<lparr>url = \<lparr>img_width = 600, img_height = 1400\<rparr>, regions = []\<rparr>,
           selectedRegionId = None, isProcessing = False, mode = MERGED_EDITOR\<rparr>"
    using inst by (simp add: upload_state_def)
  have "1 < length (images upload_state)"
    by (simp add: upload_state_def sample_pages_def)
  with inst have "canvas_ops (mergeCanvas (images upload_state)) ! 1 =
       DrawImage (previewUrl (images upload_state ! 1)) 0 (Some (sum_list (take 1 [800, 600])))
                 (Some ([600, 500] ! 1)) (Some ([800, 600] ! 1))"
    by blast
  then have b: "canvas_ops (mergeCanvas sample_pages) ! 1 =
       DrawImage ''blob:2'' 0 (Some 800) (Some 500) (Some 600)"
    by (simp add: upload_state_def sample_pages_def)
  from inst h6 have c: "mergeImagesOnly True (\<lambda>u. True) (upload_state\<lparr>images := []\<rparr>) =
       Some (upload_state\<lparr>images := []\<rparr>)"
    by blast
  from a b c show ?thesis by blast
qed

section \<open>Properties of the export renderer\<close>

lemma split_space_nonempty: "split_space t \<noteq> []"
  by (induction t) (auto split: list.splits)

text \<open>The loop followed by the final push, against the specification's wording.\<close>

lemma wrap_loop_greedy:
  "0 < n \<Longrightarrow>
   (case wrap_loop mwidth maxw ws n line acc of (l, ls) \<Rightarrow> ls @ [l]) =
     acc @ greedy_fill mwidth maxw line ws"
proof (induction ws arbitrary: n line acc)
  case Nil
  show ?case by simp
next
  case (Cons w ws)
  show ?case
  proof (cases "mwidth (line @ w @ '' '') > maxw")
    case True
    with Cons.prems Cons.IH [of "Suc n" "w @ '' ''" "acc @ [line]"] show ?thesis
      by (simp add: Let_def)
  next
    case False
    with Cons.prems Cons.IH [of "Suc n" "line @ w @ '' ''" acc] show ?thesis
      by (simp add: Let_def)
  qed
qed

lemma wrapLines_Cons:
  "wrapLines mwidth maxw (w # ws) = greedy_fill mwidth maxw (w @ '' '') ws"
  using wrap_loop_greedy [of "Suc 0" mwidth maxw ws "w @ '' ''" "[]"]
  by (simp add: wrapLines_def Let_def)

lemma wrapLines_greedy:
  "words \<noteq> [] \<Longrightarrow> wrapLines mwidth maxw words = greedy_wrap mwidth maxw words"
  by (cases words) (simp_all add: wrapLines_Cons)

lemma line_of_words_snoc: "line_of_words (g @ [w]) = line_of_words g @ w @ '' ''"
  by (simp add: line_of_words_def)

lemma greedy_fill_groups:
  "g \<noteq> [] \<Longrightarrow>
   \<exists>gs. concat gs = g @ ws \<and> [] \<notin> set gs \<and> gs \<noteq> [] \<and>
        greedy_fill mwidth maxw (line_of_words g) ws = map line_of_words gs"
proof (induction ws arbitrary: g)
  case Nil
  then have "concat [g] = g @ [] \<and> [] \<notin> set [g] \<and> [g] \<noteq> [] \<and>
             greedy_fill mwidth maxw (line_of_words g) [] = map line_of_words [g]"
    by simp
  then show ?case by blast
next
  case (Cons w ws)
  show ?case
  proof (cases "mwidth (line_of_words g @ w @ '' '') > maxw")
    case True
    from Cons.IH [of "[w]"] obtain gs where gs: "concat gs = [w] @ ws" "[] \<notin> set gs"
      "greedy_fill mwidth maxw (line_of_words [w]) ws = map line_of_words gs"
      by auto
    have w: "line_of_words [w] = w @ '' ''" by (simp add: line_of_words_def)
    have "concat (g # gs) = g @ w # ws \<and> [] \<notin> set (g # gs) \<and> g # gs \<noteq> [] \<and>
          greedy_fill mwidth maxw (line_of_words g) (w # ws) = map line_of_words (g # gs)"
      using True gs Cons.prems w by auto
    then show ?thesis by blast
  next
    case False
    from Cons.IH [of "g @ [w]"] obtain gs where gs: "concat gs = (g @ [w]) @ ws"
      "[] \<notin> set gs" "gs \<noteq> []"
      "greedy_fill mwidth maxw (line_of_words (g @ [w])) ws = map line_of_words gs"
      by auto
    have "concat gs = g @ w # ws \<and> [] \<notin> set gs \<and> gs \<noteq> [] \<and>
          greedy_fill mwidth maxw (line_of_words g) (w # ws) = map line_of_words gs"
      using False gs by (simp add: line_of_words_snoc)
    then show ?thesis by blast
  qed
qed

lemma wrapLines_groups:
  assumes "words \<noteq> []"
  shows "\<exists>gs. concat gs = words \<and> [] \<notin> set gs \<and> gs \<noteq> [] \<and>
              wrapLines mwidth maxw words = map line_of_words gs"
proof -
  from assms obtain w ws where words: "words = w # ws" by (cases words) auto
  have "line_of_words [w] = w @ '' ''" by (simp add: line_of_words_def)
  with greedy_fill_groups [of "[w]" ws mwidth maxw] show ?thesis
    by (simp add: words wrapLines_Cons)
qed

lemma first_word_alone:
  assumes "monotone_measure mwidth" and "mwidth (w @ '' '') > maxw"
  shows "hd (wrapLines mwidth maxw (w # ws)) = w @ '' ''"
proof (cases ws)
  case Nil
  then show ?thesis by (simp add: wrapLines_Cons)
next
  case (Cons v vs)
  have "mwidth (w @ '' '') \<le> mwidth ((w @ '' '') @ v @ '' '')"
    using assms(1) unfolding monotone_measure_def by blast
  with assms(2) have "mwidth ((w @ '' '') @ v @ '' '') > maxw" by linarith
  then show ?thesis by (simp add: Cons wrapLines_Cons)
qed

lemma drawn_texts_FillText:
  "drawn_texts (map (\<lambda>(i, l). FillText style fontSize l (x i) (y i)) (enumerate n ls)) = ls"
  by (induction ls arbitrary: n) simp_all

lemma renderRegion_texts:
  "displayText r \<noteq> [] \<Longrightarrow>
   drawn_texts (renderRegion measureText cw ch r) =
     wrapLines (measureText (max 12 (toPixels (reg_height r) ch * 0.15)))
       (toPixels (reg_width r) cw * 0.85) (split_space (displayText r))"
  by (simp add: renderRegion_def Let_def drawn_texts_FillText)

lemma monotone_ten_per_char: "monotone_measure ten_per_char"
  by (simp add: monotone_measure_def ten_per_char_def)

text \<open>
  Claim C6. The lines the export writes for a region with non-empty display text are the
  wrap of its space-separated words under the measured width at the region's font size
  and the limit 0.85 * region pixel width. For any non-empty word list that wrap equals
  the greedy rule: a line starts with a word accepted unconditionally, and a following
  word closes the line and starts the next exactly when appending it would make the
  measured width exceed the limit. The lines are consecutive non-empty groups of the
  words, in order, each word followed by a space: no word is dropped. If the first word
  (measured, as every line is, with its trailing space) exceeds the limit and the measure
  never shrinks when text is appended, the first line is that word alone.
\<close>

theorem word_wrap_greedy:
  "wrapLines mwidth maxw (w # rest) = greedy_wrap mwidth maxw (w # rest)
   \<and> (\<exists>gs. concat gs = w # rest \<and> [] \<notin> set gs \<and>
            wrapLines mwidth maxw (w # rest) = map line_of_words gs)
   \<and> (monotone_measure mwidth \<and> mwidth (w @ '' '') > maxw \<longrightarrow>
         hd (wrapLines mwidth maxw (w # rest)) = w @ '' '')
   \<and> split_space t \<noteq> []
   \<and> (displayText r \<noteq> [] \<longrightarrow>
         drawn_texts (renderRegion measureText cw ch r) =
           wrapLines (measureText (max 12 (toPixels (reg_height r) ch * 0.15)))
             (toPixels (reg_width r) cw * 0.85) (split_space (displayText r)))"
proof -
  have "\<exists>gs. concat gs = w # rest \<and> [] \<notin> set gs \<and>
             wrapLines mwidth maxw (w # rest) = map line_of_words gs"
    using wrapLines_groups [of "w # rest" mwidth maxw] by auto
  then show ?thesis
    using wrapLines_greedy [of "w # rest" mwidth maxw] first_word_alone [of mwidth maxw w rest]
      split_space_nonempty [of t] renderRegion_texts [of r measureText cw ch]
    by simp
qed

theorem word_wrap_greedy_witness:
  "monotone_measure ten_per_char
   \<and> ten_per_char (''abcdefghij'' @ '' '') > 50
   \<and> hd (wrapLines ten_per_char 50 [''abcdefghij'', ''b'', ''c'']) = ''abcdefghij ''
   \<and> wrapLines ten_per_char 50 [''abcdefghij'', ''b'', ''c''] = [''abcdefghij '', ''b c '']
   \<and> split_space ''abcdefghij b c'' = [''abcdefghij'', ''b'', ''c'']
   \<and> displayText titled_region = ''abcdefghij b c''
   \<and> drawn_texts (renderRegion (\<lambda>f. ten_per_char) 100 100 titled_region) =
       [''abcdefghij '', ''b c '']"
proof -
  have shown: "displayText titled_region = ''abcdefghij b c''"
    by (simp add: displayText_def titled_region_def)
  have "displayText titled_region \<noteq> [] \<longrightarrow>
          drawn_texts (renderRegion (\<lambda>f. ten_per_char) 100 100 titled_region) =
            wrapLines ten_per_char (toPixels (reg_width titled_region) 100 * 0.85)
              (split_space (displayText titled_region))"
    using word_wrap_greedy [of ten_per_char 50 "''abcdefghij''" "[''b'', ''c'']" "[]"
        titled_region "\<lambda>f. ten_per_char" 100 100]
    by blast
  with shown
  have "drawn_texts (renderRegion (\<lambda>f. ten_per_char) 100 100 titled_region) =
          wrapLines ten_per_char (toPixels (reg_width titled_region) 100 * 0.85)
            [''abcdefghij'', ''b'', ''c'']"
    by simp
  also have "\<dots> = [''abcdefghij '', ''b c '']"
    by (simp add: wrapLines_def ten_per_char_def toPixels_def titled_region_def Let_def)
  finally have drawn: "drawn_texts (renderRegion (\<lambda>f. ten_per_char) 100 100 titled_region) =
                         [''abcdefghij '', ''b c '']" .
  have big: "ten_per_char (''abcdefghij'' @ '' '') > 50"
    by (simp add: ten_per_char_def)
  have "monotone_measure ten_per_char \<and> ten_per_char (''abcdefghij'' @ '' '') > 50 \<longrightarrow>
          hd (wrapLines ten_per_char 50 [''abcdefghij'', ''b'', ''c'']) = ''abcdefghij'' @ '' ''"
    using word_wrap_greedy [of ten_per_char 50 "''abcdefghij''" "[''b'', ''c'']"]
    by blast
  with monotone_ten_per_char big
  have "hd (wrapLines ten_per_char 50 [''abcdefghij'', ''b'', ''c'']) = ''abcdefghij ''"
    by simp
  moreover have "wrapLines ten_per_char 50 [''abcdefghij'', ''b'', ''c''] =
                   [''abcdefghij '', ''b c '']"
    by (simp add: wrapLines_def ten_per_char_def Let_def)
  moreover have "split_space ''abcdefghij b c'' = [''abcdefghij'', ''b'', ''c'']"
    by simp
  ultimately show ?thesis
    using monotone_ten_per_char big shown drawn by blast
qed

lemma rnd_step:
  assumes "0 \<le> eps" and "rounds_within eps rnd" and "1 \<le> q"
    and "\<bar>y - x\<bar> \<le> (q - 1) * \<bar>x\<bar>"
  shows "\<bar>rnd y - x\<bar> \<le> (q * (1 + eps) - 1) * \<bar>x\<bar>"
proof -
  have "\<bar>y\<bar> \<le> \<bar>x\<bar> + \<bar>y - x\<bar>" by linarith
  with assms(4) have y: "\<bar>y\<bar> \<le> q * \<bar>x\<bar>" by (simp add: algebra_simps)
  have "\<bar>rnd y - y\<bar> \<le> eps * \<bar>y\<bar>"
    using assms(2) by (simp add: rounds_within_def)
  also have "\<dots> \<le> eps * (q * \<bar>x\<bar>)"
    using y assms(1) by (rule mult_left_mono)
  finally have "\<bar>rnd y - y\<bar> \<le> eps * (q * \<bar>x\<bar>)" .
  moreover have "\<bar>rnd y - x\<bar> \<le> \<bar>rnd y - y\<bar> + \<bar>y - x\<bar>" by linarith
  ultimately have "\<bar>rnd y - x\<bar> \<le> eps * (q * \<bar>x\<bar>) + (q - 1) * \<bar>x\<bar>"
    using assms(4) by linarith
  then show ?thesis by (simp add: algebra_simps)
qed

lemma scale_err:
  fixes x y c e :: real
  assumes "\<bar>y - x\<bar> \<le> e * \<bar>x\<bar>"
  shows "\<bar>y * c - x * c\<bar> \<le> e * \<bar>x * c\<bar>"
proof -
  have "\<bar>y * c - x * c\<bar> = \<bar>y - x\<bar> * \<bar>c\<bar>"
    by (simp add: left_diff_distrib [symmetric] abs_mult)
  also have "\<dots> \<le> (e * \<bar>x\<bar>) * \<bar>c\<bar>"
    using assms by (rule mult_right_mono) simp
  finally show ?thesis by (simp add: abs_mult mult.assoc)
qed

lemma five_roundings_bound:
  fixes eps :: real
  assumes "0 \<le> eps" and "eps \<le> 1/100"
  shows "(1 + eps)^5 - 1 \<le> 6 * eps"
proof -
  have step: "q * (1 + eps) \<le> 1 + (k + 1 + 1/10) * eps"
    if "1 \<le> q" "q \<le> 1 + k * eps" "0 \<le> k" "k \<le> 10" for q k :: real
  proof -
    have "q * (1 + eps) \<le> (1 + k * eps) * (1 + eps)"
      using that(2) assms(1) by (intro mult_right_mono) simp_all
    also have "\<dots> = 1 + (k + 1) * eps + k * (eps * eps)"
      by (simp add: algebra_simps)
    also have "\<dots> \<le> 1 + (k + 1) * eps + 10 * (eps * (1/100))"
    proof -
      have a: "eps * eps \<le> eps * (1/100)"
        using assms(2) assms(1) by (rule mult_left_mono)
      have b: "0 \<le> eps * eps" using assms(1) by simp
      have "k * (eps * eps) \<le> 10 * (eps * (1/100))"
        using that(4) a _ b by (rule mult_mono) simp
      then show ?thesis by simp
    qed
    finally show ?thesis by (simp add: algebra_simps)
  qed
  have one: "1 \<le> 1 + eps" using assms(1) by simp
  have p: "1 \<le> (1 + eps)^n" for n using one by (rule one_le_power)
  have q2: "(1 + eps)^2 \<le> 1 + (21/10) * eps"
    using step [of "1 + eps" 1] one by (simp add: power2_eq_square)
  have q3: "(1 + eps)^3 \<le> 1 + (32/10) * eps"
    using step [of "(1 + eps)^2" "21/10"] p [of 2] q2
    by (simp add: power3_eq_cube power2_eq_square mult.assoc)
  have q4: "(1 + eps)^4 \<le> 1 + (43/10) * eps"
    using step [of "(1 + eps)^3" "32/10"] p [of 3] q3
    by (simp add: power4_eq_xxxx power3_eq_cube mult.assoc)
  have "(1 + eps)^5 = (1 + eps)^4 * (1 + eps)" by (simp add: numeral_eq_Suc mult.commute)
  with step [of "(1 + eps)^4" "43/10"] p [of 4] q4
  have "(1 + eps)^5 \<le> 1 + (54/10) * eps" by simp
  with assms(1) show ?thesis by simp
qed

text \<open>One coordinate there and back: five rounded operations.\<close>

lemma roundtrip_fl:
  assumes eps: "0 \<le> eps" and rnd: "rounds_within eps rnd" and d: "0 < d"
  shows "\<bar>toPercent_fl rnd (toPixels_fl rnd p d) 0 (real d) - p\<bar> \<le> ((1 + eps)^5 - 1) * \<bar>p\<bar>"
proof -
  let ?e = "1 + eps"
  let ?D = "real d"
  have D: "?D \<noteq> 0" using d by simp
  have e1: "1 \<le> ?e" using eps by simp
  have ge: "1 \<le> ?e ^ n" for n using e1 by (rule one_le_power)
  let ?a1 = "rnd (p / 100)"
  let ?a2 = "rnd (?a1 * ?D)"
  let ?b1 = "rnd (?a2 - 0)"
  let ?b2 = "rnd (?b1 / ?D)"
  let ?b3 = "rnd (?b2 * 100)"
  have s1: "\<bar>?a1 - p / 100\<bar> \<le> (?e - 1) * \<bar>p / 100\<bar>"
    using rnd_step [OF eps rnd, of 1 "p / 100" "p / 100"] by simp
  have "\<bar>?a1 * ?D - p / 100 * ?D\<bar> \<le> (?e - 1) * \<bar>p / 100 * ?D\<bar>"
    using s1 by (rule scale_err)
  then have s2: "\<bar>?a2 - p / 100 * ?D\<bar> \<le> (?e ^ 2 - 1) * \<bar>p / 100 * ?D\<bar>"
    using rnd_step [OF eps rnd e1, of "?a1 * ?D" "p / 100 * ?D"]
    by (simp add: power2_eq_square)
  have s3: "\<bar>?b1 - p / 100 * ?D\<bar> \<le> (?e ^ 3 - 1) * \<bar>p / 100 * ?D\<bar>"
    using rnd_step [OF eps rnd ge [of 2], of "?a2 - 0" "p / 100 * ?D"] s2
    by (simp add: power3_eq_cube power2_eq_square mult.assoc)
  have "\<bar>?b1 * (1 / ?D) - p / 100 * ?D * (1 / ?D)\<bar> \<le> (?e ^ 3 - 1) * \<bar>p / 100 * ?D * (1 / ?D)\<bar>"
    using s3 by (rule scale_err)
  then have "\<bar>?b1 / ?D - p / 100\<bar> \<le> (?e ^ 3 - 1) * \<bar>p / 100\<bar>"
    using D by simp
  then have s4: "\<bar>?b2 - p / 100\<bar> \<le> (?e ^ 4 - 1) * \<bar>p / 100\<bar>"
    using rnd_step [OF eps rnd ge [of 3], of "?b1 / ?D" "p / 100"]
    by (simp add: power4_eq_xxxx power3_eq_cube mult.assoc)
  have "\<bar>?b2 * 100 - p / 100 * 100\<bar> \<le> (?e ^ 4 - 1) * \<bar>p / 100 * 100\<bar>"
    using s4 by (rule scale_err)
  then have "\<bar>?b2 * 100 - p\<bar> \<le> (?e ^ 4 - 1) * \<bar>p\<bar>"
    by simp
  then have "\<bar>?b3 - p\<bar> \<le> (?e ^ 4 * ?e - 1) * \<bar>p\<bar>"
    using rnd_step [OF eps rnd ge [of 4], of "?b2 * 100" p] by simp
  moreover have "?e ^ 4 * ?e = ?e ^ 5" by (simp add: numeral_eq_Suc mult.commute)
  ultimately show ?thesis
    by (simp add: toPercent_fl_def toPixels_fl_def)
qed

lemma rounds_within_0: "rounds_within 0 rnd \<Longrightarrow> rnd x = x"
  by (simp add: rounds_within_def)

lemma exact_conversions:
  assumes "rounds_within 0 rnd"
  shows "toPixels_fl rnd p d = toPixels p d"
    and "toPercent_fl rnd c origin extent = toPercent c origin extent"
    and "regionPixels_fl rnd w h r = regionPixels w h r"
  using rounds_within_0 [OF assms]
  by (simp_all add: toPixels_fl_def toPixels_def toPercent_fl_def toPercent_def
      regionPixels_fl_def regionPixels_def)

lemma rounds_within_round_up_1024: "rounds_within (1 / 1024) round_up_1024"
proof -
  have "\<bar>round_up_1024 x - x\<bar> = 1 / 1024 * \<bar>x\<bar>" for x
  proof -
    have "x * (1025 / 1024) - x = x / 1024" by argo
    then show ?thesis by (simp only: round_up_1024_def)
  qed
  then show ?thesis
    by (simp only: rounds_within_def) simp
qed

text \<open>
  Claim C7. Let every arithmetic operation round with relative error at most \<open>eps\<close>
  (\<open>eps\<close> = 2 to the power -53 for doubles, \<open>eps\<close> = 0 for exact rational or real
  arithmetic). At every resolution W x H with W > 0 and H > 0, the pixel rectangle
  computed from a region's percentage coordinates by p / 100 * dimension, converted back
  by pixel / dimension * 100 (the pointer conversion of the editor with origin 0), gives
  each of x, y, width and height again up to the relative tolerance (1 + eps)^5 - 1,
  which is at most 6 * eps for eps up to 1/100. With eps = 0 the round trip is exact,
  also for a container at any offset, and the rounded pixel rectangle is the exact one.
  The OCR crop uses the same pixel rectangle.
\<close>

theorem percent_pixel_roundtrip:
  assumes "0 < W" and "0 < H" and "0 \<le> eps" and "rounds_within eps rnd"
    and "regionPixels_fl rnd W H r = (rx, ry, rw, rh)"
  shows "\<bar>toPercent_fl rnd rx 0 (real W) - reg_x r\<bar> \<le> ((1 + eps)^5 - 1) * \<bar>reg_x r\<bar>
       \<and> \<bar>toPercent_fl rnd ry 0 (real H) - reg_y r\<bar> \<le> ((1 + eps)^5 - 1) * \<bar>reg_y r\<bar>
       \<and> \<bar>toPercent_fl rnd rw 0 (real W) - reg_width r\<bar> \<le> ((1 + eps)^5 - 1) * \<bar>reg_width r\<bar>
       \<and> \<bar>toPercent_fl rnd rh 0 (real H) - reg_height r\<bar> \<le> ((1 + eps)^5 - 1) * \<bar>reg_height r\<bar>
       \<and> (eps \<le> 1/100 \<longrightarrow> (1 + eps)^5 - 1 \<le> 6 * eps)
       \<and> (eps = 0 \<longrightarrow>
             toPercent_fl rnd rx 0 (real W) = reg_x r
           \<and> toPercent_fl rnd ry 0 (real H) = reg_y r
           \<and> toPercent_fl rnd rw 0 (real W) = reg_width r
           \<and> toPercent_fl rnd rh 0 (real H) = reg_height r
           \<and> toPercent_fl rnd (ox + rx) ox (real W) = reg_x r
           \<and> toPercent_fl rnd (oy + ry) oy (real H) = reg_y r
           \<and> regionPixels W H r = (rx, ry, rw, rh))
       \<and> ocrCropRect_fl rnd \<lparr>img_width = W, img_height = H\<rparr> r = (rx, ry, rw, rh)"
proof -
  from assms(5) have px: "rx = toPixels_fl rnd (reg_x r) W" "ry = toPixels_fl rnd (reg_y r) H"
    "rw = toPixels_fl rnd (reg_width r) W" "rh = toPixels_fl rnd (reg_height r) H"
    by (simp_all add: regionPixels_fl_def)
  note rt = roundtrip_fl [OF assms(3,4)]
  have bx: "\<bar>toPercent_fl rnd rx 0 (real W) - reg_x r\<bar> \<le> ((1 + eps)^5 - 1) * \<bar>reg_x r\<bar>"
    unfolding px using assms(1) by (rule rt)
  have bty: "\<bar>toPercent_fl rnd ry 0 (real H) - reg_y r\<bar> \<le> ((1 + eps)^5 - 1) * \<bar>reg_y r\<bar>"
    unfolding px using assms(2) by (rule rt)
  have bw: "\<bar>toPercent_fl rnd rw 0 (real W) - reg_width r\<bar> \<le> ((1 + eps)^5 - 1) * \<bar>reg_width r\<bar>"
    unfolding px using assms(1) by (rule rt)
  have bh: "\<bar>toPercent_fl rnd rh 0 (real H) - reg_height r\<bar> \<le> ((1 + eps)^5 - 1) * \<bar>reg_height r\<bar>"
    unfolding px using assms(2) by (rule rt)
  have six: "eps \<le> 1/100 \<longrightarrow> (1 + eps)^5 - 1 \<le> 6 * eps"
    using five_roundings_bound [OF assms(3)] by blast
  have exact: "toPercent_fl rnd rx 0 (real W) = reg_x r
           \<and> toPercent_fl rnd ry 0 (real H) = reg_y r
           \<and> toPercent_fl rnd rw 0 (real W) = reg_width r
           \<and> toPercent_fl rnd rh 0 (real H) = reg_height r
           \<and> toPercent_fl rnd (ox + rx) ox (real W) = reg_x r
           \<and> toPercent_fl rnd (oy + ry) oy (real H) = reg_y r
           \<and> regionPixels W H r = (rx, ry, rw, rh)"
    if "eps = 0"
  proof -
    from that assms(4) have id: "rnd x = x" for x
      by (simp add: rounds_within_0)
    have W: "real W \<noteq> 0" and H: "real H \<noteq> 0"
      using assms(1,2) by simp_all
    show ?thesis
      using W H by (simp add: px toPercent_fl_def toPixels_fl_def regionPixels_def
          toPixels_def id)
  qed
  have ocr: "ocrCropRect_fl rnd \<lparr>img_width = W, img_height = H\<rparr> r = (rx, ry, rw, rh)"
    using assms(5) by (simp add: ocrCropRect_fl_def)
  from bx bty bw bh six exact ocr show ?thesis
    by blast
qed

theorem percent_pixel_roundtrip_witness:
  "rounds_within (1 / 1024) round_up_1024
   \<and> \<bar>toPercent_fl round_up_1024 (toPixels_fl round_up_1024 (reg_x (hd sample_regions)) 600)
         0 (real 600) - 10\<bar> \<le> 6 * (1 / 1024) * 10
   \<and> toPixels_fl round_up_1024 10 600 = 60 * (1025 / 1024)^2
   \<and> rounds_within 0 (\<lambda>x. x)
   \<and> regionPixels_fl (\<lambda>x. x) 600 1400 (hd sample_regions) = (60, 140, 120, 280)
   \<and> toPercent_fl (\<lambda>x. x) 60 0 (real 600) = reg_x (hd sample_regions)
   \<and> toPercent_fl (\<lambda>x. x) 280 0 (real 1400) = reg_height (hd sample_regions)"
proof -
  let ?r = "hd sample_regions"
  have pos: "(0::nat) < 600" "(0::nat) < 1400" by simp_all
  have x10: "reg_x ?r = 10" by (simp add: sample_regions_def)
  have up: "rounds_within (1 / 1024) round_up_1024"
    by (rule rounds_within_round_up_1024)
  have e: "(0::real) \<le> 1 / 1024" "(1 / 1024 :: real) \<le> 1 / 100" by simp_all
  have pu: "regionPixels_fl round_up_1024 600 1400 ?r =
              (toPixels_fl round_up_1024 (reg_x ?r) 600, toPixels_fl round_up_1024 (reg_y ?r) 1400,
               toPixels_fl round_up_1024 (reg_width ?r) 600,
               toPixels_fl round_up_1024 (reg_height ?r) 1400)"
    by (simp add: regionPixels_fl_def)
  from percent_pixel_roundtrip [OF pos e(1) up pu] e(2)
  have "\<bar>toPercent_fl round_up_1024 (toPixels_fl round_up_1024 (reg_x ?r) 600) 0 (real 600)
           - reg_x ?r\<bar> \<le> ((1 + 1 / 1024)^5 - 1) * \<bar>reg_x ?r\<bar>"
    and "(1 + 1 / 1024 :: real)^5 - 1 \<le> 6 * (1 / 1024)"
    by blast+
  then have a: "\<bar>toPercent_fl round_up_1024 (toPixels_fl round_up_1024 (reg_x ?r) 600)
                   0 (real 600) - 10\<bar> \<le> 6 * (1 / 1024) * 10"
    unfolding x10 by simp
  have b: "toPixels_fl round_up_1024 10 600 = 60 * (1025 / 1024)^2"
    by (simp add: toPixels_fl_def round_up_1024_def power2_eq_square)
  have ex: "rounds_within 0 (\<lambda>x. x)"
    by (simp add: rounds_within_def)
  have pe: "regionPixels_fl (\<lambda>x. x) 600 1400 ?r = (60, 140, 120, 280)"
    by (simp add: regionPixels_fl_def toPixels_fl_def sample_regions_def)
  from percent_pixel_roundtrip [OF pos order_refl ex pe]
  have c: "toPercent_fl (\<lambda>x. x) 60 0 (real 600) = reg_x ?r"
    and d: "toPercent_fl (\<lambda>x. x) 280 0 (real 1400) = reg_height ?r"
    by blast+
  from up a b ex pe c d show ?thesis by blast
qed

lemma displayText_empty_iff:
  "displayText r = [] \<longleftrightarrow> translatedText r = [] \<and> originalText r = []"
  by (simp add: displayText_def)

lemma renderRegion_empty:
  "displayText r = [] \<Longrightarrow>
   renderRegion measureText cw ch r =
     [FillRect ''white'' (toPixels (reg_x r) cw) (toPixels (reg_y r) ch)
        (toPixels (reg_width r) cw) (toPixels (reg_height r) ch)]"
  by (simp add: renderRegion_def Let_def)

text \<open>
  Claim C2 as stated fails: the white box is painted before the display text is looked
  at. The export of the working image above, whose only region has no text, holds the
  image and then a white rectangle over the region's pixel bounds (60, 140, 120, 140).
\<close>

theorem empty_region_box_counterexample:
  "displayText blank_region = []
   \<and> renderRegion (\<lambda>f. ten_per_char) 600 1400 blank_region \<noteq> []
   \<and> downloadFinal True True (\<lambda>f. ten_per_char) blank_state =
       Exported \<lparr>canvas_width = 600, canvas_height = 1400,
                 canvas_ops = [DrawRaster \<lparr>img_width = 600, img_height = 1400\<rparr> 0 0,
                               FillRect ''white'' 60 140 120 140]\<rparr>"
proof -
  have e: "displayText blank_region = []"
    by (simp add: displayText_def blank_region_def)
  have r: "renderRegion (\<lambda>f. ten_per_char) 600 1400 blank_region =
             [FillRect ''white'' 60 140 120 140]"
    using renderRegion_empty [OF e, of "\<lambda>f. ten_per_char" 600 1400]
    by (simp add: toPixels_def blank_region_def)
  have "downloadFinal True True (\<lambda>f. ten_per_char) blank_state =
       Exported \<lparr>canvas_width = 600, canvas_height = 1400,
                 canvas_ops = [DrawRaster \<lparr>img_width = 600, img_height = 1400\<rparr> 0 0,
                               FillRect ''white'' 60 140 120 140]\<rparr>"
    by (simp add: downloadFinal_def blank_state_def Let_def r)
  with e r show ?thesis by simp
qed

text \<open>
  Claim C2, amended. For a region whose display text (translatedText if non-empty, else
  originalText) is empty, the export paints the white box over the region's pixel bounds
  and writes no text for it; the export itself completes with that box on the canvas.
  Nothing is raised: the text step is skipped silently.
\<close>

theorem empty_region_box_only:
  assumes "displayText r = []" and "mergedImage s = Some m" and "r \<in> set (regions m)"
  shows "renderRegion measureText cw ch r =
           [FillRect ''white'' (toPixels (reg_x r) cw) (toPixels (reg_y r) ch)
              (toPixels (reg_width r) cw) (toPixels (reg_height r) ch)]
       \<and> drawn_texts (renderRegion measureText cw ch r) = []
       \<and> (\<exists>c. downloadFinal True True measureText s = Exported c
              \<and> canvas_width c = img_width (url m) \<and> canvas_height c = img_height (url m)
              \<and> FillRect ''white'' (toPixels (reg_x r) (img_width (url m)))
                   (toPixels (reg_y r) (img_height (url m)))
                   (toPixels (reg_width r) (img_width (url m)))
                   (toPixels (reg_height r) (img_height (url m))) \<in> set (canvas_ops c))"
proof -
  let ?cw = "img_width (url m)" and ?ch = "img_height (url m)"
  let ?c = "\<lparr>canvas_width = ?cw, canvas_height = ?ch,
             canvas_ops = DrawRaster (url m) 0 0
               # concat (map (renderRegion measureText ?cw ?ch) (regions m))\<rparr>"
  have run: "downloadFinal True True measureText s = Exported ?c"
    using assms(2) by (simp add: downloadFinal_def Let_def)
  have "FillRect ''white'' (toPixels (reg_x r) ?cw) (toPixels (reg_y r) ?ch)
          (toPixels (reg_width r) ?cw) (toPixels (reg_height r) ?ch)
        \<in> set (renderRegion measureText ?cw ?ch r)"
    by (simp add: renderRegion_empty [OF assms(1)])
  with assms(3) have "FillRect ''white'' (toPixels (reg_x r) ?cw) (toPixels (reg_y r) ?ch)
          (toPixels (reg_width r) ?cw) (toPixels (reg_height r) ?ch) \<in> set (canvas_ops ?c)"
    by auto
  with run have "\<exists>c. downloadFinal True True measureText s = Exported c
              \<and> canvas_width c = ?cw \<and> canvas_height c = ?ch
              \<and> FillRect ''white'' (toPixels (reg_x r) ?cw) (toPixels (reg_y r) ?ch)
                   (toPixels (reg_width r) ?cw) (toPixels (reg_height r) ?ch)
                 \<in> set (canvas_ops c)"
    by (intro exI [of _ ?c]) simp
  then show ?thesis
    by (simp add: renderRegion_empty [OF assms(1)])
qed

theorem empty_region_box_only_witness:
  "displayText blank_region = []
   \<and> blank_region \<in> set [blank_region]
   \<and> renderRegion (\<lambda>f. ten_per_char) 600 1400 blank_region =
       [FillRect ''white'' 60 140 120 140]
   \<and> drawn_texts (renderRegion (\<lambda>f. ten_per_char) 600 1400 blank_region) = []"
proof -
  let ?m = "\<lparr>url = \<lparr>img_width = 600, img_height = 1400\<rparr>, regions = [blank_region]\<rparr>"
  have e: "displayText blank_region = []"
    by (simp add: displayText_def blank_region_def)
  have m: "mergedImage blank_state = Some ?m"
    by (simp add: blank_state_def)
  have r: "blank_region \<in> set (regions ?m)" by simp
  from empty_region_box_only [OF e m r, of "\<lambda>f. ten_per_char" 600 1400]
  have "renderRegion (\<lambda>f. ten_per_char) 600 1400 blank_region =
          [FillRect ''white'' (toPixels (reg_x blank_region) 600)
             (toPixels (reg_y blank_region) 1400) (toPixels (reg_width blank_region) 600)
             (toPixels (reg_height blank_region) 1400)]"
    and t: "drawn_texts (renderRegion (\<lambda>f. ten_per_char) 600 1400 blank_region) = []"
    by blast+
  then have "renderRegion (\<lambda>f. ten_per_char) 600 1400 blank_region =
               [FillRect ''white'' 60 140 120 140]"
    by (simp add: toPixels_def blank_region_def)
  with e t show ?thesis by simp
qed

section \<open>Properties of applying translations\<close>

lemma translation_lookup_find:
  "translation_lookup ts k = map_option tr_translatedText (List.find (\<lambda>t. tr_id t = k) ts)"
  by (induction ts) (simp_all add: translation_lookup_def)

lemma find_translation_None:
  "List.find (\<lambda>t. tr_id t = k) ts = None \<longleftrightarrow> k \<notin> tr_id ` set ts"
  by (auto simp: find_None_iff)

lemma applyTranslations_nth:
  assumes "i < length rs"
  shows "applyTranslations ts rs ! i =
           (case translation_lookup ts (reg_id (rs ! i)) of
              Some txt \<Rightarrow> (rs ! i)\<lparr>translatedText := txt\<rparr>
            | None \<Rightarrow> rs ! i)"
  using assms
  by (simp add: applyTranslations_def translation_lookup_find split: option.splits)

lemma translation_lookup_None:
  "translation_lookup ts k = None \<longleftrightarrow> k \<notin> tr_id ` set ts"
  by (simp add: translation_lookup_find find_translation_None)

lemma translation_lookup_Some:
  assumes "translation_lookup ts k = Some txt"
  shows "\<exists>t \<in> set ts. tr_id t = k \<and> tr_translatedText t = txt"
proof -
  from assms obtain t where t: "List.find (\<lambda>t. tr_id t = k) ts = Some t"
    "tr_translatedText t = txt"
    by (auto simp: translation_lookup_find)
  from t(1) have "t \<in> set ts \<and> tr_id t = k"
    by (auto simp: find_Some_iff)
  with t(2) show ?thesis by blast
qed

lemma runAiTranslation_regions:
  "regions_of (runAiTranslation ts s) = applyTranslations ts (regions_of s)"
  by (simp add: runAiTranslation_def regions_of_def applyTranslations_def split: option.splits)

text \<open>
  Claim C8. Applying a result array keeps the number and positions of the regions. For the
  region at each position: id, x, y, width, height, originalText and order are unchanged;
  its translatedText becomes the translatedText of the (first) result with the same id if
  there is one, and stays as it was otherwise. A region without a matching result is
  returned entirely unchanged; a region with one is the old region with only translatedText
  replaced by that of a result carrying its id. \<open>runAiTranslation\<close> stores exactly this
  list and leaves the selection alone.
\<close>

theorem translations_matched_by_id:
  "length (applyTranslations ts rs) = length rs
   \<and> (\<forall>i < length rs.
         reg_id (applyTranslations ts rs ! i) = reg_id (rs ! i)
       \<and> reg_x (applyTranslations ts rs ! i) = reg_x (rs ! i)
       \<and> reg_y (applyTranslations ts rs ! i) = reg_y (rs ! i)
       \<and> reg_width (applyTranslations ts rs ! i) = reg_width (rs ! i)
       \<and> reg_height (applyTranslations ts rs ! i) = reg_height (rs ! i)
       \<and> originalText (applyTranslations ts rs ! i) = originalText (rs ! i)
       \<and> reg_order (applyTranslations ts rs ! i) = reg_order (rs ! i)
       \<and> translatedText (applyTranslations ts rs ! i) =
           (case translation_lookup ts (reg_id (rs ! i)) of
              Some txt \<Rightarrow> txt
            | None \<Rightarrow> translatedText (rs ! i))
       \<and> (reg_id (rs ! i) \<notin> tr_id ` set ts \<longrightarrow> applyTranslations ts rs ! i = rs ! i)
       \<and> (reg_id (rs ! i) \<in> tr_id ` set ts \<longrightarrow>
            (\<exists>t \<in> set ts. tr_id t = reg_id (rs ! i) \<and>
               applyTranslations ts rs ! i = (rs ! i)\<lparr>translatedText := tr_translatedText t\<rparr>)))
   \<and> regions_of (runAiTranslation ts s) = applyTranslations ts (regions_of s)
   \<and> selectedRegionId (runAiTranslation ts s) = selectedRegionId s"
proof -
  have len: "length (applyTranslations ts rs) = length rs"
    by (simp add: applyTranslations_def)
  have each: "reg_id (applyTranslations ts rs ! i) = reg_id (rs ! i)
       \<and> reg_x (applyTranslations ts rs ! i) = reg_x (rs ! i)
       \<and> reg_y (applyTranslations ts rs ! i) = reg_y (rs ! i)
       \<and> reg_width (applyTranslations ts rs ! i) = reg_width (rs ! i)
       \<and> reg_height (applyTranslations ts rs ! i) = reg_height (rs ! i)
       \<and> originalText (applyTranslations ts rs ! i) = originalText (rs ! i)
       \<and> reg_order (applyTranslations ts rs ! i) = reg_order (rs ! i)
       \<and> translatedText (applyTranslations ts rs ! i) =
           (case translation_lookup ts (reg_id (rs ! i)) of
              Some txt \<Rightarrow> txt
            | None \<Rightarrow> translatedText (rs ! i))
       \<and> (reg_id (rs ! i) \<notin> tr_id ` set ts \<longrightarrow> applyTranslations ts rs ! i = rs ! i)
       \<and> (reg_id (rs ! i) \<in> tr_id ` set ts \<longrightarrow>
            (\<exists>t \<in> set ts. tr_id t = reg_id (rs ! i) \<and>
               applyTranslations ts rs ! i = (rs ! i)\<lparr>translatedText := tr_translatedText t\<rparr>))"
    if i: "i < length rs" for i
  proof (cases "translation_lookup ts (reg_id (rs ! i))")
    case None
    then have "reg_id (rs ! i) \<notin> tr_id ` set ts"
      by (simp add: translation_lookup_None)
    moreover have "applyTranslations ts rs ! i = rs ! i"
      using applyTranslations_nth [OF i, of ts] None by simp
    ultimately show ?thesis using None by simp
  next
    case (Some found)
    from translation_lookup_Some [OF Some] obtain t where
      t: "t \<in> set ts" "tr_id t = reg_id (rs ! i)" "tr_translatedText t = found"
      by blast
    have eq: "applyTranslations ts rs ! i = (rs ! i)\<lparr>translatedText := found\<rparr>"
      using applyTranslations_nth [OF i, of ts] Some by simp
    have "\<exists>t \<in> set ts. tr_id t = reg_id (rs ! i) \<and>
            applyTranslations ts rs ! i = (rs ! i)\<lparr>translatedText := tr_translatedText t\<rparr>"
      using t eq by blast
    moreover have "reg_id (rs ! i) \<in> tr_id ` set ts"
      using t(1,2) by force
    ultimately show ?thesis using Some eq by simp
  qed
  have sel: "selectedRegionId (runAiTranslation ts s) = selectedRegionId s"
    by (simp add: runAiTranslation_def split: option.splits)
  from len each runAiTranslation_regions [of ts s] sel show ?thesis
    by blast
qed

theorem translations_matched_by_id_witness:
  "applyTranslations sample_translations sample_regions =
     [\<lparr>reg_x = 10, reg_y = 10, reg_width = 20, reg_height = 20, originalText = [],
       translatedText = [], reg_id = ''low'', reg_order = 1\<rparr>,
      \<lparr>reg_x = 20, reg_y = 20, reg_width = 20, reg_height = 20, originalText = [],
       translatedText = ''Merhaba'', reg_id = ''high'', reg_order = 2\<rparr>]
   \<and> applyTranslations sample_translations sample_regions ! 0 = sample_regions ! 0
   \<and> translatedText (applyTranslations sample_translations sample_regions ! 1) = ''Merhaba''"
proof -
  have app: "applyTranslations sample_translations sample_regions =
     [\<lparr>reg_x = 10, reg_y = 10, reg_width = 20, reg_height = 20, originalText = [],
       translatedText = [], reg_id = ''low'', reg_order = 1\<rparr>,
      \<lparr>reg_x = 20, reg_y = 20, reg_width = 20, reg_height = 20, originalText = [],
       translatedText = ''Merhaba'', reg_id = ''high'', reg_order = 2\<rparr>]"
    by (simp add: applyTranslations_def sample_translations_def sample_regions_def)
  have l0: "0 < length sample_regions" and l1: "1 < length sample_regions"
    by (simp_all add: sample_regions_def)
  have nomatch: "reg_id (sample_regions ! 0) \<notin> tr_id ` set sample_translations"
    by (simp add: sample_regions_def sample_translations_def)
  have look: "translation_lookup sample_translations (reg_id (sample_regions ! 1)) =
                Some ''Merhaba''"
    by (simp add: translation_lookup_def sample_regions_def sample_translations_def)
  note inst = translations_matched_by_id [of sample_translations sample_regions]
  from inst l0 nomatch
  have a: "applyTranslations sample_translations sample_regions ! 0 = sample_regions ! 0"
    by blast
  from inst l1
  have "translatedText (applyTranslations sample_translations sample_regions ! 1) =
          (case translation_lookup sample_translations (reg_id (sample_regions ! 1)) of
             Some txt \<Rightarrow> txt
           | None \<Rightarrow> translatedText (sample_regions ! 1))"
    by blast
  with look
  have b: "translatedText (applyTranslations sample_translations sample_regions ! 1) =
             ''Merhaba''"
    by simp
  from app a b show ?thesis by blast
qed

section \<open>Properties of the translation service call\<close>

lemma translate_returns: "\<exists>v. translateOcrResults P k svc d src tgt = Inr v"
  by (simp add: translateOcrResults_def split: sum.splits)

lemma translate_guards:
  "d = [] \<or> k = [] \<Longrightarrow> translateOcrResults P k svc d src tgt = Inr (JArray [])"
  by (auto simp: translateOcrResults_def)

lemma translate_try_failed:
  "try_block P (svc d src tgt) = Inl e \<Longrightarrow> translateOcrResults P k svc d src tgt = Inr (JArray [])"
  by (simp add: translateOcrResults_def)

lemma translate_try_value:
  "d \<noteq> [] \<Longrightarrow> k \<noteq> [] \<Longrightarrow> try_block P (svc d src tgt) = Inr v \<Longrightarrow>
   translateOcrResults P k svc d src tgt = Inr v"
  by (simp add: translateOcrResults_def)

lemma js_ascii_literals:
  "js_ascii ''[]'' = [0x5B, 0x5D]" "js_ascii ''{}'' = [0x7B, 0x7D]"
  "js_ascii ''nope'' = [0x6E, 0x6F, 0x70, 0x65]" "js_ascii ''  '' = [0x20, 0x20]"
  by (simp_all add: js_ascii_def)

lemma js_trim_samples:
  "js_trim (js_ascii ''{}'') = js_ascii ''{}''"
  "js_trim (js_ascii ''nope'') = js_ascii ''nope''"
  "js_trim (js_ascii ''  '') = []"
  "js_trim nbsp_object = js_ascii ''{}''"
  "js_trim padded_object = js_ascii ''{}''"
  by (simp_all add: js_ascii_literals nbsp_object_def padded_object_def js_trim_def
      is_js_space_def)

lemma parse_sample_values:
  "parse_sample (js_ascii ''[]'') = Some (JArray [])"
  "parse_sample (js_ascii ''{}'') = Some (JObject [])"
  "parse_sample (js_ascii ''nope'') = None"
  by (simp_all add: parse_sample_def js_ascii_literals)

text \<open>
  Claim C9 as stated fails for a response that is valid JSON of the wrong shape: with a
  credential and a non-empty request, the response text \<open>{}\<close> is returned as the parsed
  object, not as an empty array.
\<close>

theorem translate_wrong_shape_counterexample:
  "translateOcrResults parse_sample ''key''
     (\<lambda>d src tgt. ServiceResponds (Some (js_ascii ''{}'')))
     sample_request ''Korean'' ''Turkish'' = Inr (JObject [])
   \<and> JObject [] \<noteq> JArray []"
proof -
  have "js_ascii ''{}'' \<noteq> []"
    by (simp add: js_ascii_def)
  then show ?thesis
    by (simp add: translateOcrResults_def try_block_def sample_request_def
        js_trim_samples parse_sample_values Let_def)
qed

text \<open>
  Claim C9, amended. \<open>translateOcrResults\<close> never throws to its caller. It returns an
  empty array for empty input, for a missing credential, and when the service call
  throws. Otherwise the response text is trimmed with \<open>String.prototype.trim\<close>, an absent
  text or one that trims to the empty string is replaced by \<open>[]\<close>, and the outcome is
  decided by \<open>JSON.parse\<close> on that trimmed text alone: if it rejects the trimmed text the
  result is an empty array (so is the result for an absent or blank text, given that
  \<open>JSON.parse\<close> maps \<open>[]\<close> to the empty array); if it accepts the trimmed text the parsed
  value is returned as it is, whatever its shape.
\<close>

theorem translate_never_throws:
  "(\<exists>v. translateOcrResults P k svc d src tgt = Inr v)
   \<and> (d = [] \<longrightarrow> translateOcrResults P k svc d src tgt = Inr (JArray []))
   \<and> (k = [] \<longrightarrow> translateOcrResults P k svc d src tgt = Inr (JArray []))
   \<and> (svc d src tgt = ServiceThrows \<longrightarrow> translateOcrResults P k svc d src tgt = Inr (JArray []))
   \<and> (P (js_ascii ''[]'') = Some (JArray []) \<and>
        (svc d src tgt = ServiceResponds None \<or>
         (\<exists>t. svc d src tgt = ServiceResponds (Some t) \<and> js_trim t = [])) \<longrightarrow>
        translateOcrResults P k svc d src tgt = Inr (JArray []))
   \<and> (\<forall>t. svc d src tgt = ServiceResponds (Some t) \<and> js_trim t \<noteq> [] \<and> P (js_trim t) = None \<longrightarrow>
          translateOcrResults P k svc d src tgt = Inr (JArray []))
   \<and> (\<forall>t v. d \<noteq> [] \<and> k \<noteq> [] \<and> svc d src tgt = ServiceResponds (Some t) \<and> js_trim t \<noteq> [] \<and>
            P (js_trim t) = Some v \<longrightarrow>
            translateOcrResults P k svc d src tgt = Inr v)"
proof -
  have thrown: "translateOcrResults P k svc d src tgt = Inr (JArray [])"
    if "svc d src tgt = ServiceThrows"
    using that translate_try_failed [of P svc d src tgt ServiceError k]
    by (simp add: try_block_def)
  have blank: "translateOcrResults P k svc d src tgt = Inr (JArray [])"
    if "P (js_ascii ''[]'') = Some (JArray [])"
      and "svc d src tgt = ServiceResponds None \<or>
           (\<exists>t. svc d src tgt = ServiceResponds (Some t) \<and> js_trim t = [])"
  proof -
    from that have "try_block P (svc d src tgt) = Inr (JArray [])"
      by (auto simp: try_block_def Let_def)
    then show ?thesis
      by (simp add: translateOcrResults_def)
  qed
  have unparsable: "translateOcrResults P k svc d src tgt = Inr (JArray [])"
    if "svc d src tgt = ServiceResponds (Some t)" "js_trim t \<noteq> []" "P (js_trim t) = None" for t
    using that translate_try_failed [of P svc d src tgt SyntaxError k]
    by (simp add: try_block_def Let_def)
  have parsed: "translateOcrResults P k svc d src tgt = Inr v"
    if "d \<noteq> []" "k \<noteq> []" "svc d src tgt = ServiceResponds (Some t)" "js_trim t \<noteq> []"
      "P (js_trim t) = Some v" for t v
    using that translate_try_value [of d k P svc src tgt v]
    by (simp add: try_block_def Let_def)
  from translate_returns [of P k svc d src tgt] translate_guards [of d k P svc src tgt]
    thrown blank unparsable parsed
  show ?thesis by blast
qed

theorem translate_never_throws_witness:
  "translateOcrResults parse_sample ''key''
     (\<lambda>d src tgt. ServiceResponds (Some (js_ascii ''nope'')))
     sample_request ''Korean'' ''Turkish'' = Inr (JArray [])
   \<and> translateOcrResults parse_sample ''key''
       (\<lambda>d src tgt. ServiceResponds (Some (js_ascii ''  '')))
       sample_request ''Korean'' ''Turkish'' = Inr (JArray [])
   \<and> translateOcrResults parse_sample []
       (\<lambda>d src tgt. ServiceResponds (Some (js_ascii ''{}'')))
       sample_request ''Korean'' ''Turkish'' = Inr (JArray [])
   \<and> translateOcrResults parse_sample ''key''
       (\<lambda>d src tgt. ServiceResponds (Some nbsp_object))
       sample_request ''Korean'' ''Turkish'' = Inr (JObject [])
   \<and> translateOcrResults parse_sample ''key''
       (\<lambda>d src tgt. ServiceResponds (Some padded_object))
       sample_request ''Korean'' ''Turkish'' = Inr (JObject [])"
proof -
  have ne: "sample_request \<noteq> []" "''key'' \<noteq> []" "js_ascii ''{}'' \<noteq> []"
    "js_ascii ''nope'' \<noteq> []"
    by (simp_all add: sample_request_def js_ascii_def)
  have a: "translateOcrResults parse_sample ''key''
     (\<lambda>d src tgt. ServiceResponds (Some (js_ascii ''nope'')))
     sample_request ''Korean'' ''Turkish'' = Inr (JArray [])"
    using translate_never_throws [of parse_sample "''key''"
        "\<lambda>d src tgt. ServiceResponds (Some (js_ascii ''nope''))" sample_request
        "''Korean''" "''Turkish''"]
      js_trim_samples(2) parse_sample_values(3) ne(4)
    by auto
  have b: "translateOcrResults parse_sample ''key''
       (\<lambda>d src tgt. ServiceResponds (Some (js_ascii ''  '')))
       sample_request ''Korean'' ''Turkish'' = Inr (JArray [])"
    using translate_never_throws [of parse_sample "''key''"
        "\<lambda>d src tgt. ServiceResponds (Some (js_ascii ''  ''))" sample_request
        "''Korean''" "''Turkish''"]
      js_trim_samples(3) parse_sample_values(1)
    by auto
  have c: "translateOcrResults parse_sample []
       (\<lambda>d src tgt. ServiceResponds (Some (js_ascii ''{}'')))
       sample_request ''Korean'' ''Turkish'' = Inr (JArray [])"
    using translate_never_throws [of parse_sample "[]"
        "\<lambda>d src tgt. ServiceResponds (Some (js_ascii ''{}''))" sample_request
        "''Korean''" "''Turkish''"]
    by blast
  have d: "translateOcrResults parse_sample ''key''
       (\<lambda>d src tgt. ServiceResponds (Some nbsp_object))
       sample_request ''Korean'' ''Turkish'' = Inr (JObject [])"
    using translate_never_throws [of parse_sample "''key''"
        "\<lambda>d src tgt. ServiceResponds (Some nbsp_object)" sample_request
        "''Korean''" "''Turkish''"]
      js_trim_samples(4) parse_sample_values(2) ne(1,2,3)
    by auto
  have e: "translateOcrResults parse_sample ''key''
       (\<lambda>d src tgt. ServiceResponds (Some padded_object))
       sample_request ''Korean'' ''Turkish'' = Inr (JObject [])"
    using translate_never_throws [of parse_sample "''key''"
        "\<lambda>d src tgt. ServiceResponds (Some padded_object)" sample_request
        "''Korean''" "''Turkish''"]
      js_trim_samples(5) parse_sample_values(2) ne(1,2,3)
    by auto
  from a b c d e show ?thesis by blast
qed

end
